theory Spec2Isabelle
  imports Main
begin

section \<open>Strings and regular expressions of the host language\<close>

text \<open>
  A JavaScript string is a sequence of UTF-16 code units; \<open>.length\<close> counts code units.
  A code unit is modelled as a natural number, a string as a list of them. \<open>js\<close> turns
  an Isabelle string literal into such a string.
\<close>

type_synonym jsstring = "nat list"

definition js :: "string \<Rightarrow> jsstring" where
  "js s = map of_char s"

text \<open>
  \<open>\s\<close> and \<open>String.prototype.trim\<close> use the same set: WhiteSpace (TAB, VT, FF, SP,
  NBSP, ZWNBSP and the Unicode space separators) and LineTerminator (LF, CR, LS, PS).
\<close>

definition is_space :: "nat \<Rightarrow> bool" where
  "is_space c \<longleftrightarrow>
     c = 9 \<or> c = 10 \<or> c = 11 \<or> c = 12 \<or> c = 13 \<or> c = 32 \<or> c = 160 \<or> c = 5760 \<or>
     (8192 \<le> c \<and> c \<le> 8202) \<or> c = 8232 \<or> c = 8233 \<or> c = 8239 \<or> c = 8287 \<or>
     c = 12288 \<or> c = 65279"

text \<open>\<open>\w\<close> is \<open>[A-Za-z0-9_]\<close>.\<close>

definition is_word :: "nat \<Rightarrow> bool" where
  "is_word c \<longleftrightarrow> (65 \<le> c \<and> c \<le> 90) \<or> (97 \<le> c \<and> c \<le> 122) \<or> (48 \<le> c \<and> c \<le> 57) \<or> c = 95"

definition trim :: "jsstring \<Rightarrow> jsstring" where
  "trim s = rev (dropWhile is_space (rev (dropWhile is_space s)))"

text \<open>\<open>xs.join('\n')\<close>\<close>

fun join_nl :: "jsstring list \<Rightarrow> jsstring" where
  "join_nl [] = []"
| "join_nl [x] = x"
| "join_nl (x # y # ys) = x @ 10 # join_nl (y # ys)"

text \<open>\<open>s.split('\n')\<close>: never empty, \<open>''.split('\n')\<close> is \<open>['']\<close>.\<close>

fun split_nl :: "jsstring \<Rightarrow> jsstring list" where
  "split_nl [] = [[]]"
| "split_nl (c # cs) =
     (if c = 10 then [] # split_nl cs
      else (case split_nl cs of l # ls \<Rightarrow> (c # l) # ls | [] \<Rightarrow> [[c]]))"

text \<open>\<open>content.split(/\r?\n/)\<close>: a separator is \<open>\r\n\<close> or a \<open>\n\<close> alone.\<close>

fun split_lines :: "jsstring \<Rightarrow> jsstring list" where
  "split_lines [] = [[]]"
| "split_lines (c # cs) =
     (if c = 10 then [] # split_lines cs
      else if c = 13 \<and> cs \<noteq> [] \<and> hd cs = 10 then [] # split_lines (tl cs)
      else (case split_lines cs of l # ls \<Rightarrow> (c # l) # ls | [] \<Rightarrow> [[c]]))"

subsection \<open>A backtracking matcher\<close>

text \<open>
  The patterns of the source use character classes, sequence, alternation, greedy
  \<open>*\<close>, \<open>+\<close>, \<open>?\<close>, capture groups and \<open>$\<close>. The matcher returns, in the
  priority order of the backtracking engine, every way the pattern can match a prefix of
  the input: the rest of the input and the captures. A greedy star tries one more
  iteration first; an iteration that consumes nothing is rejected, as the language
  standard says. The fuel bounds the number of iterations of a star; the length of the
  input is enough, since every iteration consumes a code unit.
\<close>

datatype rx =
    Cls "nat \<Rightarrow> bool"
  | Eps
  | Eos
  | Seq rx rx
  | Alt rx rx
  | Star rx
  | Grp nat rx

type_synonym caps = "(nat \<times> jsstring) list"

fun rm :: "nat \<Rightarrow> rx \<Rightarrow> jsstring \<times> caps \<Rightarrow> (jsstring \<times> caps) list" where
  "rm n (Cls p) (s, c) = (case s of [] \<Rightarrow> [] | x # xs \<Rightarrow> if p x then [(xs, c)] else [])"
| "rm n Eps sc = [sc]"
| "rm n Eos (s, c) = (if s = [] then [(s, c)] else [])"
| "rm n (Seq a b) sc = concat (map (rm n b) (rm n a sc))"
| "rm n (Alt a b) sc = rm n a sc @ rm n b sc"
| "rm n (Grp k a) (s, c) =
     map (\<lambda>(t, c'). (t, (k, take (length s - length t) s) # c')) (rm n a (s, c))"
| "rm 0 (Star a) sc = [sc]"
| "rm (Suc n) (Star a) (s, c) =
     concat (map (rm n (Star a)) (filter (\<lambda>(t, c'). length t < length s) (rm (Suc n) a (s, c))))
     @ [(s, c)]"

definition Plus :: "rx \<Rightarrow> rx" where
  "Plus r = Seq r (Star r)"

definition Opt :: "rx \<Rightarrow> rx" where
  "Opt r = Alt r Eps"

definition Chr :: "char \<Rightarrow> rx" where
  "Chr ch = Cls (\<lambda>c. c = of_char ch)"

definition NotChr :: "char \<Rightarrow> rx" where
  "NotChr ch = Cls (\<lambda>c. c \<noteq> of_char ch)"

definition Lit :: "string \<Rightarrow> rx" where
  "Lit s = foldr (\<lambda>ch r. Seq (Chr ch) r) s Eps"

definition Seqs :: "rx list \<Rightarrow> rx" where
  "Seqs rs = foldr Seq rs Eps"

abbreviation rx_s :: rx where "rx_s \<equiv> Cls is_space"
abbreviation rx_S :: rx where "rx_S \<equiv> Cls (\<lambda>c. \<not> is_space c)"
abbreviation rx_w :: rx where "rx_w \<equiv> Cls is_word"

text \<open>\<open>line.match(/^.../)\<close>: the captures of the first match at the start, or none.\<close>

definition match_start :: "rx \<Rightarrow> jsstring \<Rightarrow> caps option" where
  "match_start r s = (case rm (length s) r (s, []) of [] \<Rightarrow> None | (t, c) # _ \<Rightarrow> Some c)"

definition test_start :: "rx \<Rightarrow> jsstring \<Rightarrow> bool" where
  "test_start r s \<longleftrightarrow> match_start r s \<noteq> None"

text \<open>\<open>/.../.test(line)\<close> for a pattern with no \<open>^\<close>: a match at some position.\<close>

fun test_any :: "rx \<Rightarrow> jsstring \<Rightarrow> bool" where
  "test_any r [] = test_start r []"
| "test_any r (c # cs) = (test_start r (c # cs) \<or> test_any r cs)"

text \<open>\<open>match[k]\<close>; a group that took no part in the match is the empty string here.\<close>

definition grp :: "nat \<Rightarrow> caps \<Rightarrow> jsstring" where
  "grp k c = (case map_of c k of None \<Rightarrow> [] | Some g \<Rightarrow> g)"

section \<open>The patterns of the chunker\<close>

text \<open>\<open>(<[^>]+>)\<close> as group \<open>k\<close>.\<close>

definition spec_grp :: "nat \<Rightarrow> rx" where
  "spec_grp k = Grp k (Seqs [Chr CHR ''<'', Plus (NotChr CHR ''>''), Chr CHR ''>''])"

text \<open>\<open>/^(\s*)(\w+)(<[^>]+>)*\s*:=\s*(class|struct|interface|enum)/\<close>\<close>

definition classOrStruct :: rx where
  "classOrStruct = Seqs [Grp 1 (Star rx_s), Grp 2 (Plus rx_w), Star (spec_grp 3), Star rx_s,
     Lit '':='', Star rx_s,
     Grp 4 (Alt (Lit ''class'') (Alt (Lit ''struct'') (Alt (Lit ''interface'') (Lit ''enum''))))]"

text \<open>\<open>/^(\s*)(\w+)\s*:=\s*module:/\<close>\<close>

definition moduleDecl :: rx where
  "moduleDecl = Seqs [Grp 1 (Star rx_s), Grp 2 (Plus rx_w), Star rx_s, Lit '':='', Star rx_s,
     Lit ''module:'']"

text \<open>\<open>/^(\s*)\([^)]+\)\.(\w+)/\<close>\<close>

definition extensionStart :: rx where
  "extensionStart = Seqs [Grp 1 (Star rx_s), Chr CHR ''('', Plus (NotChr CHR '')''), Chr CHR '')'',
     Chr CHR ''.'', Grp 2 (Plus rx_w)]"

text \<open>\<open>/^(\s*)(\w+)(<[^>]+>)?\s*\(/\<close>\<close>

definition functionStart :: rx where
  "functionStart = Seqs [Grp 1 (Star rx_s), Grp 2 (Plus rx_w), Opt (spec_grp 3), Star rx_s,
     Chr CHR ''('']"

text \<open>\<open>\)\s*(<[^>]+>)*\s*:\s*\S+\s*=\s*$\<close>, the tail shared by two patterns.\<close>

definition sig_tail :: "nat \<Rightarrow> rx" where
  "sig_tail k = Seqs [Chr CHR '')'', Star rx_s, Star (spec_grp k), Star rx_s, Chr CHR '':'',
     Star rx_s, Plus rx_S, Star rx_s, Chr CHR ''='', Star rx_s, Eos]"

text \<open>\<open>/^(\s*)(\w+)(<[^>]+>)?\s*\([^)]*\)\s*(<[^>]+>)*\s*:\s*\S+\s*=\s*$/\<close>\<close>

definition simpleFunction :: rx where
  "simpleFunction = Seqs [Grp 1 (Star rx_s), Grp 2 (Plus rx_w), Opt (spec_grp 3), Star rx_s,
     Chr CHR ''('', Star (NotChr CHR '')''), sig_tail 4]"

text \<open>\<open>/\)\s*(<[^>]+>)*\s*:\s*\S+\s*=\s*$/\<close>\<close>

definition signatureEnd :: rx where
  "signatureEnd = sig_tail 1"

text \<open>\<open>/\)\s*(<[^>]+>)*\s*:\s*\S+\s*$/\<close>\<close>

definition interfaceMethodEnd :: rx where
  "interfaceMethodEnd = Seqs [Chr CHR '')'', Star rx_s, Star (spec_grp 1), Star rx_s, Chr CHR '':'',
     Star rx_s, Plus rx_S, Star rx_s, Eos]"

text \<open>\<open>/^(\s*)@\w+/\<close>\<close>

definition attribute :: rx where
  "attribute = Seqs [Grp 1 (Star rx_s), Chr CHR ''@'', Plus rx_w]"

text \<open>\<open>/^(\s*)#/\<close>\<close>

definition comment :: rx where
  "comment = Seqs [Grp 1 (Star rx_s), Chr CHR ''#'']"

text \<open>\<open>/^(\s*)using\s*\{/\<close>\<close>

definition using_pat :: rx where
  "using_pat = Seqs [Grp 1 (Star rx_s), Lit ''using'', Star rx_s, Chr CHR ''{'']"

text \<open>\<open>/^\s*$/\<close>\<close>

definition emptyOrWhitespace :: rx where
  "emptyOrWhitespace = Seqs [Star rx_s, Eos]"

text \<open>
  \<open>getIndent\<close>: \<open>line.match(/^(\s*)/)\<close>, then the length of group 1, or 0 when there
  is no match.
\<close>

definition getIndent :: "jsstring \<Rightarrow> nat" where
  "getIndent line =
     (case match_start (Grp 1 (Star rx_s)) line of None \<Rightarrow> 0 | Some m \<Rightarrow> length (grp 1 m))"

definition isBlankOrComment :: "jsstring \<Rightarrow> bool" where
  "isBlankOrComment line \<longleftrightarrow> test_start emptyOrWhitespace line \<or> test_start comment line"


section \<open>The segmenter: \<open>chunkVerseFile\<close>, first pass\<close>

datatype mode = IDLE | IN_SIGNATURE | IN_BODY

text \<open>Reading a property of \<open>null\<close> or \<open>undefined\<close> throws.\<close>

datatype error = TypeError

text \<open>The chunk builder made by \<open>startChunk\<close>.\<close>

record builder =
  b_startLine :: int
  signatureLines :: "jsstring list"
  bodyLines :: "jsstring list"
  baseIndent :: nat
  b_type :: jsstring
  hasBody :: bool

text \<open>
  An emitted chunk. \<open>parentClass\<close> is set on extracted members only. The token estimate
  is a count.
\<close>

record chunk =
  ctext :: jsstring
  startLine :: int
  endLine :: int
  tokenCount :: nat
  ctype :: jsstring
  signature :: jsstring
  parentClass :: "jsstring option"

record seg_state =
  state :: mode
  currentChunk :: "builder option"
  attributeLines :: "(int \<times> jsstring) list"
  chunks :: "chunk list"

definition startChunk :: "int \<Rightarrow> jsstring \<Rightarrow> nat \<Rightarrow> jsstring \<Rightarrow> bool \<Rightarrow> builder" where
  "startChunk lineNum line indent ty hb =
     \<lparr>b_startLine = lineNum, signatureLines = [line], bodyLines = [], baseIndent = indent,
      b_type = ty, hasBody = hb\<rparr>"

text \<open>
  \<open>finalizeChunk\<close>. The token estimator \<open>estimateTokens\<close> is imported from a module
  that is not part of the sources; it is the parameter \<open>est\<close>.
\<close>

definition with_attributes :: "(int \<times> jsstring) list \<Rightarrow> builder \<Rightarrow> builder" where
  "with_attributes attrs cc =
     (if attrs \<noteq> []
      then cc\<lparr>b_startLine := fst (hd attrs), signatureLines := map snd attrs @ signatureLines cc\<rparr>
      else cc)"

definition sig_of :: "builder \<Rightarrow> jsstring" where
  "sig_of cc = trim (join_nl (signatureLines cc))"

definition fullContent :: "builder \<Rightarrow> jsstring" where
  "fullContent cc =
     (let body = join_nl (bodyLines cc) in sig_of cc @ (if body \<noteq> [] then 10 # body else []))"

definition chunk_of :: "(jsstring \<Rightarrow> nat) \<Rightarrow> int \<Rightarrow> builder \<Rightarrow> chunk" where
  "chunk_of est endL cc =
     \<lparr>ctext = fullContent cc, startLine = b_startLine cc, endLine = endL,
      tokenCount = est (fullContent cc), ctype = b_type cc,
      signature = take 100 (trim (hd (split_nl (sig_of cc)))), parentClass = None\<rparr>"

definition finalizeChunk :: "(jsstring \<Rightarrow> nat) \<Rightarrow> int \<Rightarrow> seg_state \<Rightarrow> seg_state" where
  "finalizeChunk est endL st =
     (case currentChunk st of
        None \<Rightarrow> st
      | Some cc0 \<Rightarrow>
          (let cc = with_attributes (attributeLines st) cc0 in
           st\<lparr>chunks := (if length (trim (fullContent cc)) > 20
                          then chunks st @ [chunk_of est endL cc] else chunks st),
              currentChunk := None, attributeLines := []\<rparr>))"

text \<open>The last block of the loop body: the \<open>IDLE\<close> state looking for a definition start.\<close>

definition idle_step :: "(jsstring \<Rightarrow> nat) \<Rightarrow> int \<Rightarrow> jsstring \<Rightarrow> seg_state \<Rightarrow> seg_state" where
  "idle_step est lineNum line st =
     (if test_start attribute line
      then st\<lparr>attributeLines := attributeLines st @ [(lineNum, line)]\<rparr>
      else case match_start classOrStruct line of
        Some m \<Rightarrow>
          (let st1 = st\<lparr>currentChunk :=
                       Some (startChunk lineNum line (length (grp 1 m)) (grp 4 m) True)\<rparr> in
           if grp 4 m = js ''enum'' \<and> 123 \<in> set line \<and> 125 \<in> set line
           then finalizeChunk est lineNum st1
           else st1\<lparr>state := IN_BODY\<rparr>)
      | None \<Rightarrow>
      (case match_start moduleDecl line of
        Some m \<Rightarrow>
          st\<lparr>currentChunk := Some (startChunk lineNum line (length (grp 1 m)) (js ''module'') True),
             state := IN_BODY\<rparr>
      | None \<Rightarrow>
      (case match_start extensionStart line of
        Some m \<Rightarrow>
          (let cc = startChunk lineNum line (length (grp 1 m)) (js ''extension'') False in
           if test_any signatureEnd line
           then st\<lparr>currentChunk := Some (cc\<lparr>hasBody := True\<rparr>), state := IN_BODY\<rparr>
           else st\<lparr>currentChunk := Some cc, state := IN_SIGNATURE\<rparr>)
      | None \<Rightarrow>
      (case match_start simpleFunction line of
        Some m \<Rightarrow>
          st\<lparr>currentChunk := Some (startChunk lineNum line (length (grp 1 m)) (js ''function'') True),
             state := IN_BODY\<rparr>
      | None \<Rightarrow>
      (case (if test_start simpleFunction line then None else match_start functionStart line) of
        Some m \<Rightarrow>
          st\<lparr>currentChunk := Some (startChunk lineNum line (length (grp 1 m)) (js ''function'') False),
             state := IN_SIGNATURE\<rparr>
      | None \<Rightarrow>
          (if attributeLines st \<noteq> [] \<and> \<not> test_start attribute line \<and> \<not> isBlankOrComment line
           then st\<lparr>attributeLines := []\<rparr> else st))))))"

text \<open>One iteration of the loop over the lines, \<open>lineNum = i + 1\<close>.\<close>

definition step :: "(jsstring \<Rightarrow> nat) \<Rightarrow> int \<Rightarrow> jsstring \<Rightarrow> seg_state \<Rightarrow> error + seg_state" where
  "step est lineNum line st =
     (let indent = getIndent line in
      if state st = IDLE \<and> (test_start using_pat line \<or> test_start emptyOrWhitespace line)
      then Inr st
      else if state st = IDLE \<and> test_start comment line \<and> indent = 0 then Inr st
      else if state st = IN_BODY then
        (case currentChunk st of
           None \<Rightarrow> Inl TypeError
         | Some cc \<Rightarrow>
             if \<not> isBlankOrComment line \<and> indent \<le> baseIndent cc
             then Inr (idle_step est lineNum line
                        ((finalizeChunk est (lineNum - 1) st)\<lparr>state := IDLE\<rparr>))
             else Inr (st\<lparr>currentChunk := Some (cc\<lparr>bodyLines := bodyLines cc @ [line]\<rparr>)\<rparr>))
      else if state st = IN_SIGNATURE then
        (case currentChunk st of
           None \<Rightarrow> Inl TypeError
         | Some cc0 \<Rightarrow>
             (let cc = cc0\<lparr>signatureLines := signatureLines cc0 @ [line]\<rparr> in
              if test_any signatureEnd line
              then Inr (st\<lparr>currentChunk := Some (cc\<lparr>hasBody := True\<rparr>), state := IN_BODY\<rparr>)
              else if test_any interfaceMethodEnd line \<and> b_type cc = js ''interface-method''
              then Inr ((finalizeChunk est lineNum (st\<lparr>currentChunk := Some cc\<rparr>))\<lparr>state := IDLE\<rparr>)
              else Inr (st\<lparr>currentChunk := Some cc\<rparr>)))
      else Inr (idle_step est lineNum line st))"

fun seg_loop :: "(jsstring \<Rightarrow> nat) \<Rightarrow> int \<Rightarrow> jsstring list \<Rightarrow> seg_state \<Rightarrow> error + seg_state" where
  "seg_loop est lineNum [] st = Inr st"
| "seg_loop est lineNum (line # ls) st =
     (case step est lineNum line st of
        Inl e \<Rightarrow> Inl e
      | Inr st' \<Rightarrow> seg_loop est (lineNum + 1) ls st')"

definition seg_init :: seg_state where
  "seg_init = \<lparr>state = IDLE, currentChunk = None, attributeLines = [], chunks = []\<rparr>"

text \<open>The loop followed by the finalization at the end of the file.\<close>

definition seg_lines :: "(jsstring \<Rightarrow> nat) \<Rightarrow> jsstring list \<Rightarrow> error + chunk list" where
  "seg_lines est lines =
     (case seg_loop est 1 lines seg_init of
        Inl e \<Rightarrow> Inl e
      | Inr st \<Rightarrow>
          Inr (chunks (if currentChunk st \<noteq> None then finalizeChunk est (int (length lines)) st
                       else st)))"

definition segmenter :: "(jsstring \<Rightarrow> nat) \<Rightarrow> jsstring \<Rightarrow> error + chunk list" where
  "segmenter est content = seg_lines est (split_lines content)"


section \<open>The nested-member extractor: \<open>extractNestedMethods\<close>\<close>

text \<open>\<open>/^(\s+)(\w+)(<[^>]+>)?\s*\(/\<close>\<close>

definition methodPattern :: rx where
  "methodPattern = Seqs [Grp 1 (Plus rx_s), Grp 2 (Plus rx_w), Opt (spec_grp 3), Star rx_s,
     Chr CHR ''('']"

text \<open>\<open>/^\s*(\w+)/\<close>\<close>

definition namePattern :: rx where
  "namePattern = Seqs [Star rx_s, Grp 1 (Plus rx_w)]"

text \<open>The locals of the scan of one chunk; \<open>-1\<close> is the source's own marker.\<close>

record ext_state =
  methodStart :: int
  methodLines :: "jsstring list"
  methodIndent :: int
  inMethodSignature :: bool

definition ext_init :: ext_state where
  "ext_init = \<lparr>methodStart = -1, methodLines = [], methodIndent = -1, inMethodSignature = False\<rparr>"

definition member_chunk :: "(jsstring \<Rightarrow> nat) \<Rightarrow> chunk \<Rightarrow> jsstring \<Rightarrow> ext_state \<Rightarrow> jsstring \<Rightarrow> chunk" where
  "member_chunk est c className st line0 =
     \<lparr>ctext = join_nl (methodLines st),
      startLine = startLine c + methodStart st,
      endLine = startLine c + methodStart st + int (length (methodLines st)) - 1,
      tokenCount = est (join_nl (methodLines st)),
      ctype = js ''method'',
      signature = className @ js ''::'' @ take 80 (trim line0),
      parentClass = Some className\<rparr>"

text \<open>
  The block that finalizes a member; it reads \<open>methodLines[0]\<close>, which throws on an
  empty array.
\<close>

definition push_member ::
  "(jsstring \<Rightarrow> nat) \<Rightarrow> chunk \<Rightarrow> jsstring \<Rightarrow> ext_state \<Rightarrow> chunk list \<Rightarrow> error + chunk list" where
  "push_member est c className st res =
     (case methodLines st of
        [] \<Rightarrow> Inl TypeError
      | line0 # _ \<Rightarrow>
          Inr (if length (trim (join_nl (methodLines st))) > 20
               then res @ [member_chunk est c className st line0] else res))"

definition new_method :: "int \<Rightarrow> jsstring \<Rightarrow> ext_state \<Rightarrow> ext_state" where
  "new_method i line st =
     st\<lparr>methodStart := i, methodIndent := int (getIndent line), methodLines := [line],
        inMethodSignature := \<not> test_any signatureEnd line\<rparr>"

text \<open>One iteration of the loop over \<open>lines[1..]\<close> of the chunk's text.\<close>

definition ext_step ::
  "(jsstring \<Rightarrow> nat) \<Rightarrow> chunk \<Rightarrow> jsstring \<Rightarrow> nat \<Rightarrow> int \<Rightarrow> jsstring \<Rightarrow> ext_state \<times> chunk list
     \<Rightarrow> error + ext_state \<times> chunk list" where
  "ext_step est c className parentIndent i line sr =
     (let st = fst sr; res = snd sr; indent = getIndent line; trimmed = trim line in
      if trimmed = [] \<or> hd trimmed = 35
      then Inr (if methodStart st \<noteq> -1 then st\<lparr>methodLines := methodLines st @ [line]\<rparr> else st, res)
      else if test_start methodPattern line \<and> indent > parentIndent \<and> methodStart st = -1
      then Inr (new_method i line st, res)
      else if inMethodSignature st \<and> methodStart st \<noteq> -1
      then Inr (st\<lparr>methodLines := methodLines st @ [line],
                  inMethodSignature := (if test_any signatureEnd line then False
                                        else inMethodSignature st)\<rparr>, res)
      else if methodStart st \<noteq> -1 then
        (if int indent \<le> methodIndent st \<and> trimmed \<noteq> []
         then (case push_member est c className st res of
                 Inl e \<Rightarrow> Inl e
               | Inr res' \<Rightarrow>
                   if test_start methodPattern line \<and> indent > parentIndent
                   then Inr (new_method i line st, res')
                   else Inr (st\<lparr>methodStart := -1, methodLines := [], methodIndent := -1\<rparr>, res'))
         else Inr (st\<lparr>methodLines := methodLines st @ [line]\<rparr>, res))
      else Inr (st, res))"

fun ext_loop ::
  "(jsstring \<Rightarrow> nat) \<Rightarrow> chunk \<Rightarrow> jsstring \<Rightarrow> nat \<Rightarrow> int \<Rightarrow> jsstring list \<Rightarrow> ext_state \<times> chunk list
     \<Rightarrow> error + ext_state \<times> chunk list" where
  "ext_loop est c className parentIndent i [] sr = Inr sr"
| "ext_loop est c className parentIndent i (line # ls) sr =
     (case ext_step est c className parentIndent i line sr of
        Inl e \<Rightarrow> Inl e
      | Inr sr' \<Rightarrow> ext_loop est c className parentIndent (i + 1) ls sr')"

text \<open>The member chunks that one chunk contributes after itself.\<close>

definition extract_members :: "(jsstring \<Rightarrow> nat) \<Rightarrow> chunk \<Rightarrow> error + chunk list" where
  "extract_members est c =
     (if ctype c \<noteq> js ''class'' \<and> ctype c \<noteq> js ''struct'' then Inr []
      else let lines = split_nl (ctext c) in
        if length lines < 3 then Inr []
        else
          (let className = (case match_start namePattern (hd lines) of
                              Some m \<Rightarrow> grp 1 m | None \<Rightarrow> js ''Unknown'');
               parentIndent = getIndent (hd lines)
           in case ext_loop est c className parentIndent 1 (tl lines) (ext_init, []) of
                Inl e \<Rightarrow> Inl e
              | Inr (st, res) \<Rightarrow>
                  if methodStart st \<noteq> -1 \<and> methodLines st \<noteq> []
                  then push_member est c className st res
                  else Inr res))"

fun extractNestedMethods :: "(jsstring \<Rightarrow> nat) \<Rightarrow> chunk list \<Rightarrow> error + chunk list" where
  "extractNestedMethods est [] = Inr []"
| "extractNestedMethods est (c # cs) =
     (case extract_members est c of
        Inl e \<Rightarrow> Inl e
      | Inr ms \<Rightarrow>
          (case extractNestedMethods est cs of
             Inl e \<Rightarrow> Inl e
           | Inr r \<Rightarrow> Inr (c # ms @ r)))"

section \<open>The token-budget splitter: \<open>applyTokenLimits\<close>\<close>

text \<open>
  The backward scan for the overlap, over the lines of the emitted segment from the last
  to the first; it returns \<open>overlapLines\<close> and \<open>overlapCount\<close>.
\<close>

fun overlap_loop ::
  "(jsstring \<Rightarrow> nat) \<Rightarrow> nat \<Rightarrow> jsstring list \<Rightarrow> jsstring list \<times> nat \<Rightarrow> jsstring list \<times> nat" where
  "overlap_loop est overlapTokens [] (ov, cnt) = (ov, cnt)"
| "overlap_loop est overlapTokens (l # ls) (ov, cnt) =
     (if cnt < overlapTokens
      then (if cnt + est l \<le> overlapTokens
            then overlap_loop est overlapTokens ls (l # ov, cnt + est l)
            else (ov, cnt))
      else (ov, cnt))"

record split_state =
  currentLines :: "jsstring list"
  currentTokens :: nat
  s_startLine :: int
  result :: "chunk list"

definition segment_of :: "chunk \<Rightarrow> jsstring \<Rightarrow> split_state \<Rightarrow> int \<Rightarrow> chunk" where
  "segment_of c signatureLine st endL =
     \<lparr>ctext = join_nl (currentLines st), startLine = s_startLine st, endLine = endL,
      tokenCount = currentTokens st, ctype = ctype c,
      signature = (if length (result st) = 0 then signatureLine
                   else js ''(continued) '' @ signatureLine),
      parentClass = None\<rparr>"

text \<open>One iteration of the loop over the lines of an oversized chunk.\<close>

definition split_step ::
  "(jsstring \<Rightarrow> nat) \<Rightarrow> nat \<Rightarrow> nat \<Rightarrow> chunk \<Rightarrow> jsstring \<Rightarrow> int \<Rightarrow> jsstring \<Rightarrow> split_state
     \<Rightarrow> split_state" where
  "split_step est targetTokens overlapTokens c signatureLine i line st =
     (let lineTokens = est line;
          st1 = (if currentTokens st + lineTokens > targetTokens \<and> currentLines st \<noteq> []
                 then (let ov = overlap_loop est overlapTokens (rev (currentLines st)) ([], 0) in
                       \<lparr>currentLines = fst ov, currentTokens = snd ov,
                        s_startLine = startLine c + i - int (length (fst ov)),
                        result = result st @
                          [segment_of c signatureLine st
                             (s_startLine st + int (length (currentLines st)) - 1)]\<rparr>)
                 else st)
      in st1\<lparr>currentLines := currentLines st1 @ [line],
             currentTokens := currentTokens st1 + lineTokens\<rparr>)"

fun split_loop ::
  "(jsstring \<Rightarrow> nat) \<Rightarrow> nat \<Rightarrow> nat \<Rightarrow> chunk \<Rightarrow> jsstring \<Rightarrow> int \<Rightarrow> jsstring list \<Rightarrow> split_state
     \<Rightarrow> split_state" where
  "split_loop est targetTokens overlapTokens c signatureLine i [] st = st"
| "split_loop est targetTokens overlapTokens c signatureLine i (line # ls) st =
     split_loop est targetTokens overlapTokens c signatureLine (i + 1) ls
       (split_step est targetTokens overlapTokens c signatureLine i line st)"

text \<open>
  The body of the loop over the chunks. \<open>tokenCount <= targetTokens * 1.5\<close> on counts is
  \<open>2 * tokenCount \<le> 3 * targetTokens\<close>.
\<close>

definition limit_chunk ::
  "(jsstring \<Rightarrow> nat) \<Rightarrow> nat \<Rightarrow> nat \<Rightarrow> chunk \<Rightarrow> chunk list \<Rightarrow> chunk list" where
  "limit_chunk est targetTokens overlapTokens c res =
     (if 2 * tokenCount c \<le> 3 * targetTokens then res @ [c]
      else
        (let lines = split_nl (ctext c);
             signatureLine = (if signature c \<noteq> [] then signature c else hd lines);
             st = split_loop est targetTokens overlapTokens c signatureLine 0 lines
                    \<lparr>currentLines = [], currentTokens = 0, s_startLine = startLine c, result = res\<rparr>
         in if currentLines st \<noteq> [] \<and> length (trim (join_nl (currentLines st))) > 20
            then result st @ [segment_of c signatureLine st (endLine c)]
            else result st))"

fun limit_loop ::
  "(jsstring \<Rightarrow> nat) \<Rightarrow> nat \<Rightarrow> nat \<Rightarrow> chunk list \<Rightarrow> chunk list \<Rightarrow> chunk list" where
  "limit_loop est targetTokens overlapTokens [] res = res"
| "limit_loop est targetTokens overlapTokens (c # cs) res =
     limit_loop est targetTokens overlapTokens cs (limit_chunk est targetTokens overlapTokens c res)"

definition applyTokenLimits :: "(jsstring \<Rightarrow> nat) \<Rightarrow> nat \<Rightarrow> nat \<Rightarrow> chunk list \<Rightarrow> chunk list" where
  "applyTokenLimits est targetTokens overlapTokens cs = limit_loop est targetTokens overlapTokens cs []"

section \<open>The whole pipeline\<close>

text \<open>
  \<open>getChunkingParams\<close> is imported from the same absent module; its two results are the
  parameters \<open>targetTokens\<close> and \<open>overlapTokens\<close>.
\<close>

definition chunks_of_lines ::
  "(jsstring \<Rightarrow> nat) \<Rightarrow> nat \<Rightarrow> nat \<Rightarrow> jsstring list \<Rightarrow> error + chunk list" where
  "chunks_of_lines est targetTokens overlapTokens lines =
     (case seg_lines est lines of
        Inl e \<Rightarrow> Inl e
      | Inr cs \<Rightarrow>
          (case extractNestedMethods est cs of
             Inl e \<Rightarrow> Inl e
           | Inr cs' \<Rightarrow> Inr (applyTokenLimits est targetTokens overlapTokens cs')))"

definition chunkVerseFile :: "(jsstring \<Rightarrow> nat) \<Rightarrow> nat \<Rightarrow> nat \<Rightarrow> jsstring \<Rightarrow> error + chunk list" where
  "chunkVerseFile est targetTokens overlapTokens content =
     chunks_of_lines est targetTokens overlapTokens (split_lines content)"


section \<open>Reference notions used to state the properties\<close>

text \<open>
  The depth as the specification words it: the leading whitespace of the line counted in
  columns, a tab being 4 columns and any other whitespace character 1.
\<close>

definition depth_tab4 :: "jsstring \<Rightarrow> nat" where
  "depth_tab4 line = sum_list (map (\<lambda>c. if c = 9 then 4 else 1) (takeWhile is_space line))"

section \<open>Example inputs\<close>

text \<open>Projection of every chunk of a result.\<close>

fun map_chunks :: "(chunk \<Rightarrow> 'b) \<Rightarrow> error + chunk list \<Rightarrow> error + 'b list" where
  "map_chunks f (Inl e) = Inl e"
| "map_chunks f (Inr cs) = Inr (map f cs)"



text \<open>A one-line enum followed by a function whose text is over the budget.\<close>

definition continued_example :: jsstring where
  "continued_example =
     join_nl [js ''ab:=enum{Left,Right,Up}'', js ''F()<t>:int='',
       js ''    aaaaaaaaaaaaaaaaaaaaaaaa'', js ''    bbbbbbbbbbbbbbbbbbbbbbbb'']"

definition oversized_first_example :: jsstring where
  "oversized_first_example =
     join_nl [js ''F()<t>:int='',
       js ''    aaaaaaaaaaaaaaaaaaaaaaaa'', js ''    bbbbbbbbbbbbbbbbbbbbbbbb'']"


text \<open>A header that the end of the file cuts short.\<close>

definition unterminated_example :: jsstring where
  "unterminated_example = join_nl [js ''Foo('', js ''  x'']"

definition unterminated_long_example :: jsstring where
  "unterminated_long_example = join_nl [js ''Compute(first: int,'', js ''  second: int'']"

text \<open>An attribute, a blank line, a function.\<close>

definition attribute_blank_example :: jsstring where
  "attribute_blank_example =
     join_nl [js ''@editable'', js '''', js ''F()<t>:int='', js ''    Result'']"



text \<open>A class of two lines, and a class with one method.\<close>

definition small_class_example :: jsstring where
  "small_class_example = join_nl [js ''counter := class:'', js ''    Value : int = 0'']"

definition small_class_chunk :: chunk where
  "small_class_chunk =
     \<lparr>ctext = small_class_example, startLine = 1, endLine = 2, tokenCount = 37,
      ctype = js ''class'', signature = js ''counter := class:'', parentClass = None\<rparr>"

definition class_method_example :: jsstring where
  "class_method_example =
     join_nl [js ''timer := class:'', js ''    Get()<t>:int='', js ''        ComputedValue'']"

definition class_method_chunk :: chunk where
  "class_method_chunk =
     \<lparr>ctext = class_method_example, startLine = 1, endLine = 3, tokenCount = 55,
      ctype = js ''class'', signature = js ''timer := class:'', parentClass = None\<rparr>"

text \<open>The segmenter after the line \<open>@editable\<close>, and with the function after it open.\<close>

definition attr_state :: seg_state where
  "attr_state =
     \<lparr>state = IDLE, currentChunk = None, attributeLines = [(1, js ''@editable'')], chunks = []\<rparr>"

definition attr_builder :: builder where
  "attr_builder =
     \<lparr>b_startLine = 3, signatureLines = [js ''F()<t>:int=''],
      bodyLines = [js ''    Result''], baseIndent = 0, b_type = js ''function'', hasBody = True\<rparr>"

definition attr_open_state :: seg_state where
  "attr_open_state =
     \<lparr>state = IN_BODY, currentChunk = Some attr_builder,
      attributeLines = [(1, js ''@editable'')], chunks = []\<rparr>"

text \<open>The segmenter at the end of \<open>unterminated_long_example\<close>.\<close>

definition unterminated_long_state :: seg_state where
  "unterminated_long_state =
     \<lparr>state = IN_SIGNATURE,
      currentChunk = Some \<lparr>b_startLine = 1,
        signatureLines = [js ''Compute(first: int,'', js ''  second: int''],
        bodyLines = [], baseIndent = 0, b_type = js ''function'', hasBody = False\<rparr>,
      attributeLines = [], chunks = []\<rparr>"

section \<open>Predicates of the properties\<close>




text \<open>The number of line feeds of a text, and the lines that hold none.\<close>

definition nl_count :: "jsstring \<Rightarrow> nat" where
  "nl_count s = length (filter (\<lambda>c. c = 10) s)"

definition no_nl :: "jsstring \<Rightarrow> bool" where
  "no_nl l \<longleftrightarrow> 10 \<notin> set l"

text \<open>
  A chunk is well placed when its line range is not empty, starts at line 1 or later,
  and the text has at most as many lines as the range.
\<close>

definition chunk_ok :: "chunk \<Rightarrow> bool" where
  "chunk_ok c \<longleftrightarrow>
     1 \<le> startLine c \<and> startLine c \<le> endLine c \<and>
     int (nl_count (ctext c)) \<le> endLine c - startLine c"

text \<open>
  The invariant of the segmenter before line \<open>n\<close>. The frontier is the first line
  that the pending attributes or the open builder own, or \<open>n\<close>.
\<close>

definition builder_start :: "int \<Rightarrow> seg_state \<Rightarrow> int" where
  "builder_start n st = (case currentChunk st of Some cc \<Rightarrow> b_startLine cc | None \<Rightarrow> n)"

definition frontier :: "int \<Rightarrow> seg_state \<Rightarrow> int" where
  "frontier n st =
     (case attributeLines st of [] \<Rightarrow> builder_start n st | p # ps \<Rightarrow> fst p)"

definition builder_inv :: "int \<Rightarrow> builder \<Rightarrow> bool" where
  "builder_inv n cc \<longleftrightarrow>
     signatureLines cc \<noteq> [] \<and>
     int (length (signatureLines cc) + length (bodyLines cc)) = n - b_startLine cc \<and>
     (\<forall>l\<in>set (signatureLines cc @ bodyLines cc). no_nl l)"

definition seg_data_inv :: "int \<Rightarrow> seg_state \<Rightarrow> bool" where
  "seg_data_inv n st \<longleftrightarrow>
     (\<forall>c\<in>set (chunks st).
        chunk_ok c \<and> endLine c < frontier n st \<and> 20 < length (trim (ctext c))) \<and>
     sorted_wrt (\<lambda>a b. endLine a < startLine b) (chunks st) \<and>
     1 \<le> frontier n st \<and>
     frontier n st + int (length (attributeLines st)) \<le> builder_start n st \<and>
     builder_start n st \<le> n \<and>
     (\<forall>p\<in>set (attributeLines st). no_nl (snd p)) \<and>
     (\<forall>cc. currentChunk st = Some cc \<longrightarrow> builder_inv n cc)"

definition seg_inv :: "int \<Rightarrow> seg_state \<Rightarrow> bool" where
  "seg_inv n st \<longleftrightarrow> (state st = IDLE \<longleftrightarrow> currentChunk st = None) \<and> seg_data_inv n st"

text \<open>
  The invariant of the extractor before line \<open>i\<close> of the text of the chunk \<open>c\<close>: an
  open member holds the lines from \<open>methodStart\<close> up to \<open>i\<close>, and the members
  emitted so far are well placed, end before line \<open>i\<close> of the text and pass the floor.
\<close>

definition member_ok :: "chunk \<Rightarrow> int \<Rightarrow> chunk \<Rightarrow> bool" where
  "member_ok c i m \<longleftrightarrow> chunk_ok m \<and> endLine m < startLine c + i \<and> 20 < length (trim (ctext m))"

definition ext_inv :: "chunk \<Rightarrow> int \<Rightarrow> ext_state \<times> chunk list \<Rightarrow> bool" where
  "ext_inv c i sr \<longleftrightarrow>
     (methodStart (fst sr) \<noteq> -1 \<longrightarrow>
        1 \<le> methodStart (fst sr) \<and> methodLines (fst sr) \<noteq> [] \<and>
        methodStart (fst sr) + int (length (methodLines (fst sr))) = i \<and>
        (\<forall>l\<in>set (methodLines (fst sr)). no_nl l)) \<and>
     (\<forall>m\<in>set (snd sr). member_ok c i m)"

text \<open>A chunk of the first two passes in a file of \<open>N\<close> lines.\<close>

definition placed :: "int \<Rightarrow> chunk \<Rightarrow> bool" where
  "placed N c \<longleftrightarrow> chunk_ok c \<and> endLine c \<le> N \<and> 20 < length (trim (ctext c))"

text \<open>The line range of a chunk lies in a file of \<open>N\<close> lines.\<close>

definition in_file :: "int \<Rightarrow> chunk \<Rightarrow> bool" where
  "in_file N c \<longleftrightarrow> 1 \<le> startLine c \<and> startLine c \<le> endLine c \<and> endLine c \<le> N"

text \<open>
  The invariant of the splitter before line \<open>i\<close> of the text of the chunk \<open>c\<close>: the
  current lines are the last ones before \<open>i\<close>, and they start at \<open>s_startLine\<close>.
\<close>

definition split_pos_inv :: "int \<Rightarrow> chunk \<Rightarrow> int \<Rightarrow> split_state \<Rightarrow> bool" where
  "split_pos_inv N c i st \<longleftrightarrow>
     s_startLine st + int (length (currentLines st)) = startLine c + i \<and>
     startLine c \<le> s_startLine st \<and>
     (\<forall>s\<in>set (result st). in_file N s)"

text \<open>Two sibling functions, and the segmenter with the first one open.\<close>

definition two_functions_example :: jsstring where
  "two_functions_example =
     join_nl [js ''First()<t>:int='', js ''    ResultNumberOne'',
       js ''Second()<t>:int='', js ''    ResultNumberTwo'']"

definition first_builder :: builder where
  "first_builder =
     \<lparr>b_startLine = 1, signatureLines = [js ''First()<t>:int=''],
      bodyLines = [js ''    ResultNumberOne''], baseIndent = 0, b_type = js ''function'',
      hasBody = True\<rparr>"

definition first_open_state :: seg_state where
  "first_open_state =
     \<lparr>state = IN_BODY, currentChunk = Some first_builder, attributeLines = [], chunks = []\<rparr>"




text \<open>
  A header indented by 4 spaces whose body line is indented by two tabs, and the same with
  the tabs written as 8 spaces.
\<close>

definition tab_body_example :: jsstring where
  "tab_body_example =
     join_nl [js ''    ComputeTotal(a:int)<t>:int='', [9, 9] @ js ''ResultValue'']"

definition space_body_example :: jsstring where
  "space_body_example =
     join_nl [js ''    ComputeTotal(a:int)<t>:int='', js ''        ResultValue'']"

text \<open>
  The segmenter with a short function open under a buffered attribute, and the file it
  comes from.
\<close>

definition attr_short_state :: seg_state where
  "attr_short_state =
     \<lparr>state = IN_BODY,
      currentChunk = Some \<lparr>b_startLine = 2, signatureLines = [js ''F():int=''], bodyLines = [],
        baseIndent = 0, b_type = js ''function'', hasBody = True\<rparr>,
      attributeLines = [(1, js ''@a'')], chunks = []\<rparr>"

definition attr_short_example :: jsstring where
  "attr_short_example =
     join_nl [js ''@a'', js ''F():int='', js ''G()<t>:int='', js ''    ResultValueIsLong'']"

text \<open>
  One-line enums of 21 and of 20 characters; classes whose member has a trimmed text of
  21 and of 20 characters; the scan of the first class with its member open.
\<close>

definition enum21_example :: jsstring where
  "enum21_example = js ''abc:=enum{Left,Right}''"

definition enum20_example :: jsstring where
  "enum20_example = js ''ab:=enum{Left,Right}''"

definition member21_example :: jsstring where
  "member21_example = join_nl [js ''timer := class:'', js ''    G()<t>:int='', js ''     abcd'']"

definition member20_example :: jsstring where
  "member20_example = join_nl [js ''timer := class:'', js ''    G()<t>:int='', js ''     abc'']"

definition member21_chunk :: chunk where
  "member21_chunk =
     \<lparr>ctext = member21_example, startLine = 1, endLine = 3, tokenCount = 41,
      ctype = js ''class'', signature = js ''timer := class:'', parentClass = None\<rparr>"

definition member21_state :: ext_state where
  "member21_state =
     \<lparr>methodStart = 1, methodLines = [js ''    G()<t>:int='', js ''     abcd''],
      methodIndent = 4, inMethodSignature = False\<rparr>"

section \<open>Evaluation rules\<close>

lemmas rx_defs = classOrStruct_def moduleDecl_def extensionStart_def functionStart_def
  sig_tail_def simpleFunction_def signatureEnd_def interfaceMethodEnd_def attribute_def
  comment_def using_pat_def emptyOrWhitespace_def methodPattern_def namePattern_def
  Seqs_def Lit_def Chr_def NotChr_def Plus_def Opt_def spec_grp_def
  test_start_def match_start_def is_space_def is_word_def grp_def getIndent_def
  isBlankOrComment_def

lemmas seg_defs = segmenter_def seg_lines_def seg_init_def step_def idle_step_def
  finalizeChunk_def chunk_of_def fullContent_def sig_of_def with_attributes_def startChunk_def
  trim_def Let_def

lemmas ext_defs = extract_members_def ext_step_def ext_init_def push_member_def
  member_chunk_def new_method_def

lemmas split_defs = applyTokenLimits_def limit_chunk_def split_step_def segment_of_def

lemmas pipe_defs = chunkVerseFile_def chunks_of_lines_def

lemmas all_defs = js_def rx_defs seg_defs ext_defs split_defs pipe_defs

section \<open>The indentation depth\<close>

lemma rm_star_cls:
  "length s \<le> n \<Longrightarrow> \<exists>rest. rm n (Star (Cls p)) (s, c) = (dropWhile p s, c) # rest"
proof (induction n arbitrary: s)
  case 0
  then show ?case by simp
next
  case (Suc n)
  show ?case
  proof (cases s)
    case Nil
    then show ?thesis by simp
  next
    case (Cons x xs)
    show ?thesis
    proof (cases "p x")
      case True
      from Suc.prems Cons have "length xs \<le> n" by simp
      from Suc.IH[OF this] obtain rest
        where "rm n (Star (Cls p)) (xs, c) = (dropWhile p xs, c) # rest"
        by blast
      with True Cons show ?thesis by simp
    next
      case False
      with Cons show ?thesis by simp
    qed
  qed
qed

lemma length_minus_dropWhile: "length s - length (dropWhile p s) = length (takeWhile p s)"
proof -
  have "length (takeWhile p s @ dropWhile p s) = length s" by simp
  then show ?thesis by (simp del: takeWhile_dropWhile_id)
qed

lemma getIndent_takeWhile: "getIndent line = length (takeWhile is_space line)"
proof -
  obtain rest
    where "rm (length line) (Star rx_s) (line, []) = (dropWhile is_space line, []) # rest"
    using rm_star_cls[of line "length line" is_space "[]"] by auto
  then show ?thesis
    by (simp add: getIndent_def match_start_def grp_def length_minus_dropWhile
        length_takeWhile_le min_absorb2)
qed

section \<open>The invariant of the segmenter\<close>

lemma nl_count_append [simp]: "nl_count (a @ b) = nl_count a + nl_count b"
  by (simp add: nl_count_def)

lemma nl_count_Nil [simp]: "nl_count [] = 0"
  by (simp add: nl_count_def)

lemma nl_count_Cons [simp]: "nl_count (c # s) = (if c = 10 then 1 else 0) + nl_count s"
  by (simp add: nl_count_def)

lemma nl_count_rev [simp]: "nl_count (rev s) = nl_count s"
  by (simp add: nl_count_def flip: rev_filter)

lemma nl_count_dropWhile: "nl_count (dropWhile p s) \<le> nl_count s"
proof -
  have "nl_count (takeWhile p s @ dropWhile p s) = nl_count s" by simp
  then show ?thesis by (simp del: takeWhile_dropWhile_id)
qed

lemma nl_count_trim: "nl_count (trim s) \<le> nl_count s"
proof -
  have "nl_count (trim s) \<le> nl_count (rev (dropWhile is_space s))"
    unfolding trim_def using nl_count_dropWhile[of is_space "rev (dropWhile is_space s)"] by simp
  also have "\<dots> \<le> nl_count s" using nl_count_dropWhile[of is_space s] by simp
  finally show ?thesis .
qed

lemma nl_count_no_nl: "no_nl l \<Longrightarrow> nl_count l = 0"
  by (induction l) (auto simp add: no_nl_def)

lemma nl_count_join:
  "\<forall>l\<in>set ls. no_nl l \<Longrightarrow> nl_count (join_nl ls) = length ls - 1"
  by (induction ls rule: join_nl.induct) (auto simp add: nl_count_no_nl)

lemma split_nl_not_Nil [simp]: "split_nl s \<noteq> []"
  by (induction s) (auto split: list.splits)

lemma length_split_nl: "length (split_nl s) = nl_count s + 1"
  by (induction s) (auto split: list.splits)

lemma split_nl_no_nl: "l \<in> set (split_nl s) \<Longrightarrow> no_nl l"
  by (induction s arbitrary: l) (auto simp add: no_nl_def split: list.splits if_splits)

lemma split_lines_not_Nil [simp]: "split_lines s \<noteq> []"
  by (induction s rule: split_lines.induct) (auto split: list.splits)

lemma split_lines_no_nl: "l \<in> set (split_lines s) \<Longrightarrow> no_nl l"
  by (induction s arbitrary: l rule: split_lines.induct)
    (auto simp add: no_nl_def split: list.splits if_splits)

lemma fullContent_lines:
  assumes "signatureLines b \<noteq> []" "\<forall>l\<in>set (signatureLines b @ bodyLines b). no_nl l"
  shows "nl_count (fullContent b) + 1 \<le> length (signatureLines b) + length (bodyLines b)"
proof -
  have s: "nl_count (sig_of b) \<le> length (signatureLines b) - 1"
    unfolding sig_of_def using nl_count_trim[of "join_nl (signatureLines b)"] nl_count_join[of "signatureLines b"] assms(2)
    by auto
  have bd: "nl_count (join_nl (bodyLines b)) = length (bodyLines b) - 1"
    using nl_count_join[of "bodyLines b"] assms(2) by auto
  show ?thesis
  proof (cases "join_nl (bodyLines b) = []")
    case True
    then have "nl_count (fullContent b) = nl_count (sig_of b)" by (simp add: fullContent_def)
    with s assms(1) show ?thesis by (cases "signatureLines b") auto
  next
    case False
    then have ne: "bodyLines b \<noteq> []" by auto
    from False have "nl_count (fullContent b) = nl_count (sig_of b) + 1 + nl_count (join_nl (bodyLines b))"
      by (simp add: fullContent_def)
    with s bd ne assms(1) show ?thesis
      by (cases "signatureLines b"; cases "bodyLines b") auto
  qed
qed


lemma finalize_fields:
  "currentChunk (finalizeChunk est e st) = None"
  "currentChunk st \<noteq> None \<Longrightarrow> attributeLines (finalizeChunk est e st) = []"
  "state (finalizeChunk est e st) = state st"
  by (auto simp add: finalizeChunk_def Let_def split: option.splits)

lemma with_attributes_inv:
  assumes "builder_inv (e + 1) cc" "\<forall>p\<in>set attrs. no_nl (snd p)"
  shows "signatureLines (with_attributes attrs cc) \<noteq> []"
    and "\<forall>l\<in>set (signatureLines (with_attributes attrs cc) @ bodyLines (with_attributes attrs cc)). no_nl l"
    and "int (length (signatureLines (with_attributes attrs cc)) + length (bodyLines (with_attributes attrs cc)))
          = e + 1 - b_startLine cc + int (length attrs)"
  using assms by (auto simp add: with_attributes_def builder_inv_def)

lemma with_attributes_start:
  "currentChunk st = Some cc \<Longrightarrow> b_startLine (with_attributes (attributeLines st) cc) = frontier n st"
  by (auto simp add: with_attributes_def frontier_def builder_start_def split: list.splits)

lemma finalize_chunk_ok:
  assumes inv: "seg_data_inv (e + 1) st" and cur: "currentChunk st = Some cc"
  shows "chunk_ok (chunk_of est e (with_attributes (attributeLines st) cc))"
    and "startLine (chunk_of est e (with_attributes (attributeLines st) cc)) = frontier (e + 1) st"
    and "endLine (chunk_of est e (with_attributes (attributeLines st) cc)) = e"
proof -
  let ?b = "with_attributes (attributeLines st) cc"
  from inv cur have bi: "builder_inv (e + 1) cc" and an: "\<forall>p\<in>set (attributeLines st). no_nl (snd p)"
    and f1: "1 \<le> frontier (e + 1) st"
    and fa: "frontier (e + 1) st + int (length (attributeLines st)) \<le> b_startLine cc"
    by (auto simp add: seg_data_inv_def builder_start_def)
  note wa = with_attributes_inv[OF bi an]
  from fullContent_lines[OF wa(1) wa(2)] wa(3)
  have nl: "int (nl_count (fullContent ?b)) + 1 \<le> e + 1 - b_startLine cc + int (length (attributeLines st))"
    by linarith
  from bi have "b_startLine cc \<le> e"
    by (cases "signatureLines cc") (auto simp add: builder_inv_def)
  with nl fa f1 show "chunk_ok (chunk_of est e ?b)"
    using with_attributes_start[OF cur, of "e + 1"]
    by (simp add: chunk_ok_def chunk_of_def)
  show "startLine (chunk_of est e ?b) = frontier (e + 1) st"
    using with_attributes_start[OF cur, of "e + 1"] by (simp add: chunk_of_def)
  show "endLine (chunk_of est e ?b) = e" by (simp add: chunk_of_def)
qed

lemma finalize_inv:
  assumes inv: "seg_data_inv (e + 1) st" and cur: "currentChunk st = Some cc" and m: "e < m"
  shows "seg_data_inv m (finalizeChunk est e st)"
proof -
  let ?c = "chunk_of est e (with_attributes (attributeLines st) cc)"
  let ?st = "finalizeChunk est e st"
  note ok = finalize_chunk_ok[OF inv cur, of est]
  have fr: "frontier m ?st = m" "builder_start m ?st = m" "attributeLines ?st = []"
    using cur by (simp_all add: frontier_def builder_start_def finalize_fields)
  from inv cur have fle: "frontier (e + 1) st \<le> e"
    using ok(1) ok(2) ok(3) by (simp add: chunk_ok_def)
  from inv have old: "\<forall>c\<in>set (chunks st). chunk_ok c \<and> endLine c < frontier (e + 1) st \<and> 20 < length (trim (ctext c))"
    and srt: "sorted_wrt (\<lambda>a b. endLine a < startLine b) (chunks st)"
    and f1: "1 \<le> frontier (e + 1) st"
    by (auto simp add: seg_data_inv_def)
  have ch: "chunks ?st = (if 20 < length (trim (ctext ?c)) then chunks st @ [?c] else chunks st)"
    using cur by (simp add: finalizeChunk_def Let_def chunk_of_def)
  have a: "\<forall>c\<in>set (chunks ?st). chunk_ok c \<and> endLine c < m \<and> 20 < length (trim (ctext c))"
    using old ok fle m by (auto simp add: ch)
  have b: "sorted_wrt (\<lambda>a b. endLine a < startLine b) (chunks ?st)"
    using srt old ok(2) by (auto simp add: ch sorted_wrt_append)
  from m f1 fle have "1 \<le> m" by linarith
  with a b show ?thesis
    by (simp add: seg_data_inv_def fr finalize_fields)
qed


lemma builder_start_state [simp]: "builder_start n (st\<lparr>state := s\<rparr>) = builder_start n st"
  by (simp add: builder_start_def)

lemma frontier_state [simp]: "frontier n (st\<lparr>state := s\<rparr>) = frontier n st"
  by (simp add: frontier_def split: list.splits)

lemma seg_data_inv_state [simp]: "seg_data_inv n (st\<lparr>state := s\<rparr>) = seg_data_inv n st"
  by (simp add: seg_data_inv_def)

lemma idle_next:
  assumes "seg_inv n st" "currentChunk st = None"
  shows "seg_inv (n + 1) st"
  using assms
  by (auto simp add: seg_inv_def seg_data_inv_def frontier_def builder_start_def split: list.splits)

lemma idle_discard:
  assumes "seg_inv n st" "currentChunk st = None"
  shows "seg_inv (n + 1) (st\<lparr>attributeLines := []\<rparr>)"
  using assms
  by (auto simp add: seg_inv_def seg_data_inv_def frontier_def builder_start_def split: list.splits)

lemma idle_push_attribute:
  assumes "seg_inv n st" "currentChunk st = None" "no_nl line"
  shows "seg_inv (n + 1) (st\<lparr>attributeLines := attributeLines st @ [(n, line)]\<rparr>)"
  using assms
  by (auto simp add: seg_inv_def seg_data_inv_def frontier_def builder_start_def split: list.splits)

lemma open_builder:
  assumes "seg_inv n st" "currentChunk st = None" "no_nl line"
    and "b_startLine cc = n" "signatureLines cc = [line]" "bodyLines cc = []"
  shows "seg_data_inv (n + 1) (st\<lparr>currentChunk := Some cc\<rparr>)"
  using assms
  by (auto simp add: seg_inv_def seg_data_inv_def frontier_def builder_start_def builder_inv_def
      split: list.splits)

lemma startChunk_fields [simp]:
  "b_startLine (startChunk n line i ty hb) = n"
  "signatureLines (startChunk n line i ty hb) = [line]"
  "bodyLines (startChunk n line i ty hb) = []"
  by (simp_all add: startChunk_def)

lemma open_builder_seg_inv:
  assumes "seg_inv n st" "currentChunk st = None" "no_nl line" "s \<noteq> IDLE"
    and "b_startLine cc = n" "signatureLines cc = [line]" "bodyLines cc = []"
  shows "seg_inv (n + 1) (st\<lparr>currentChunk := Some cc, state := s\<rparr>)"
proof -
  have "seg_data_inv (n + 1) ((st\<lparr>currentChunk := Some cc\<rparr>)\<lparr>state := s\<rparr>)"
    using open_builder[OF assms(1,2,3,5,6,7)] by (simp only: seg_data_inv_state)
  then show ?thesis using assms(4) by (simp add: seg_inv_def)
qed

lemma one_line_enum:
  assumes "seg_inv n st" "currentChunk st = None" "no_nl line"
    and "b_startLine cc = n" "signatureLines cc = [line]" "bodyLines cc = []"
  shows "seg_inv (n + 1) (finalizeChunk est n (st\<lparr>currentChunk := Some cc\<rparr>))"
proof -
  have d: "seg_data_inv (n + 1) (st\<lparr>currentChunk := Some cc\<rparr>)"
    by (rule open_builder[OF assms])
  have "seg_data_inv (n + 1) (finalizeChunk est n (st\<lparr>currentChunk := Some cc\<rparr>))"
    by (rule finalize_inv[OF d]) simp_all
  moreover from assms(1,2) have "state st = IDLE" by (simp add: seg_inv_def)
  ultimately show ?thesis by (simp add: seg_inv_def finalize_fields)
qed

lemma idle_step_inv:
  assumes inv: "seg_inv n st" and idle: "state st = IDLE" and nl: "no_nl line"
  shows "seg_inv (n + 1) (idle_step est n line st)"
proof -
  from inv idle have cur: "currentChunk st = None" by (simp add: seg_inv_def)
  note a = idle_next[OF inv cur] idle_discard[OF inv cur] idle_push_attribute[OF inv cur nl]
  note b = open_builder_seg_inv[OF inv cur nl] one_line_enum[OF inv cur nl]
  show ?thesis
  proof (cases "test_start attribute line")
    case True
    then show ?thesis by (simp add: idle_step_def a(3))
  next
    case na: False
    show ?thesis
    proof (cases "match_start classOrStruct line")
      case (Some m)
      then show ?thesis using na by (simp add: idle_step_def Let_def b)
    next
      case c1: None
      show ?thesis
      proof (cases "match_start moduleDecl line")
        case (Some m)
        then show ?thesis using na c1 by (simp add: idle_step_def b)
      next
        case c2: None
        show ?thesis
        proof (cases "match_start extensionStart line")
          case (Some m)
          then show ?thesis using na c1 c2 by (simp add: idle_step_def Let_def b)
        next
          case c3: None
          show ?thesis
          proof (cases "match_start simpleFunction line")
            case (Some m)
            then show ?thesis using na c1 c2 c3 by (simp add: idle_step_def b)
          next
            case c4: None
            then have ts: "\<not> test_start simpleFunction line" by (simp add: test_start_def)
            show ?thesis
            proof (cases "match_start functionStart line")
              case (Some m)
              then show ?thesis using na c1 c2 c3 c4 ts by (simp add: idle_step_def b)
            next
              case None
              then show ?thesis using na c1 c2 c3 c4 ts by (simp add: idle_step_def a)
            qed
          qed
        qed
      qed
    qed
  qed
qed


lemma body_push_inv:
  assumes "seg_inv n st" "currentChunk st = Some cc" "no_nl line"
  shows "seg_inv (n + 1) (st\<lparr>currentChunk := Some (cc\<lparr>bodyLines := bodyLines cc @ [line]\<rparr>)\<rparr>)"
  using assms
  by (auto simp add: seg_inv_def seg_data_inv_def frontier_def builder_start_def builder_inv_def
      split: list.splits)

lemma sig_push_data_inv:
  assumes "seg_inv n st" "currentChunk st = Some cc" "no_nl line"
  shows "seg_data_inv (n + 1) (st\<lparr>currentChunk := Some (cc\<lparr>signatureLines := signatureLines cc @ [line]\<rparr>)\<rparr>)"
  using assms
  by (auto simp add: seg_inv_def seg_data_inv_def frontier_def builder_start_def builder_inv_def
      split: list.splits)

lemma sig_push_body_inv:
  assumes "seg_inv n st" "currentChunk st = Some cc" "no_nl line"
  shows "seg_data_inv (n + 1)
    (st\<lparr>currentChunk := Some (cc\<lparr>signatureLines := signatureLines cc @ [line], hasBody := True\<rparr>)\<rparr>)"
  using assms
  by (auto simp add: seg_inv_def seg_data_inv_def frontier_def builder_start_def builder_inv_def
      split: list.splits)

lemma step_inv:
  assumes inv: "seg_inv n st" and nl: "no_nl line"
  shows "\<exists>st'. step est n line st = Inr st' \<and> seg_inv (n + 1) st'"
proof (cases "state st")
  case IDLE
  with inv have cur: "currentChunk st = None" by (simp add: seg_inv_def)
  show ?thesis
    using IDLE idle_next[OF inv cur] idle_step_inv[OF inv IDLE nl, of est]
    by (simp add: step_def Let_def)
next
  case IN_SIGNATURE
  with inv obtain cc where cur: "currentChunk st = Some cc" by (auto simp add: seg_inv_def)
  let ?cc = "cc\<lparr>signatureLines := signatureLines cc @ [line]\<rparr>"
  note d = sig_push_data_inv[OF inv cur nl]
  have 1: "seg_inv (n + 1) (st\<lparr>currentChunk := Some ?cc\<rparr>)"
    using d IN_SIGNATURE by (simp add: seg_inv_def)
  have 2: "seg_inv (n + 1) (st\<lparr>currentChunk := Some (?cc\<lparr>hasBody := True\<rparr>), state := IN_BODY\<rparr>)"
    using sig_push_body_inv[OF inv cur nl] by (simp add: seg_inv_def)
  have "seg_data_inv (n + 1) (finalizeChunk est n (st\<lparr>currentChunk := Some ?cc\<rparr>))"
    by (rule finalize_inv[OF d]) simp_all
  then have 3: "seg_inv (n + 1) ((finalizeChunk est n (st\<lparr>currentChunk := Some ?cc\<rparr>))\<lparr>state := IDLE\<rparr>)"
    by (simp add: seg_inv_def finalize_fields)
  show ?thesis
    using IN_SIGNATURE cur 1 2 3 by (simp add: step_def Let_def)
next
  case IN_BODY
  with inv obtain cc where cur: "currentChunk st = Some cc" by (auto simp add: seg_inv_def)
  from inv have d: "seg_data_inv (n - 1 + 1) st" by (simp add: seg_inv_def)
  have "seg_data_inv n (finalizeChunk est (n - 1) st)"
    by (rule finalize_inv[OF d cur]) simp
  then have f: "seg_inv n ((finalizeChunk est (n - 1) st)\<lparr>state := IDLE\<rparr>)"
    by (simp add: seg_inv_def finalize_fields)
  have 1: "seg_inv (n + 1) (idle_step est n line ((finalizeChunk est (n - 1) st)\<lparr>state := IDLE\<rparr>))"
    by (rule idle_step_inv[OF f _ nl]) simp
  show ?thesis
    using IN_BODY cur 1 body_push_inv[OF inv cur nl] by (simp add: step_def Let_def)
qed

lemma seg_loop_inv:
  "seg_inv n st \<Longrightarrow> \<forall>l\<in>set ls. no_nl l \<Longrightarrow>
   \<exists>st'. seg_loop est n ls st = Inr st' \<and> seg_inv (n + int (length ls)) st'"
proof (induction ls arbitrary: n st)
  case Nil
  then show ?case by simp
next
  case (Cons l ls)
  from Cons.prems have "no_nl l" by simp
  from step_inv[OF Cons.prems(1) this, of est] obtain st1
    where s1: "step est n l st = Inr st1" "seg_inv (n + 1) st1" by blast
  from Cons.IH[OF s1(2)] Cons.prems(2) obtain st'
    where a: "seg_loop est (n + 1) ls st1 = Inr st'" and b: "seg_inv (n + 1 + int (length ls)) st'"
    by auto
  have "n + 1 + int (length ls) = n + int (length (l # ls))" by simp
  with b have "seg_inv (n + int (length (l # ls))) st'" by (simp only:)
  moreover have "seg_loop est n (l # ls) st = Inr st'" using s1(1) a by simp
  ultimately show ?case by blast
qed

lemma seg_init_inv: "seg_inv 1 seg_init"
  by (simp add: seg_inv_def seg_data_inv_def seg_init_def frontier_def builder_start_def)

lemma seg_lines_props:
  assumes "\<forall>l\<in>set lines. no_nl l"
  shows "\<exists>cs. seg_lines est lines = Inr cs \<and>
     (\<forall>c\<in>set cs. chunk_ok c \<and> endLine c \<le> int (length lines) \<and> 20 < length (trim (ctext c))) \<and>
     sorted_wrt (\<lambda>a b. endLine a < startLine b) cs"
proof -
  let ?N = "int (length lines)"
  from seg_loop_inv[OF seg_init_inv assms, of est] obtain st
    where st: "seg_loop est 1 lines seg_init = Inr st" "seg_inv (?N + 1) st"
    by (auto simp add: add.commute)
  define st' where "st' = (if currentChunk st \<noteq> None then finalizeChunk est ?N st else st)"
  have cs: "seg_lines est lines = Inr (chunks st')"
    using st(1) by (simp add: seg_lines_def st'_def)
  have d: "seg_data_inv (?N + 1) st' \<and> currentChunk st' = None"
  proof (cases "currentChunk st")
    case None
    with st(2) show ?thesis by (simp add: st'_def seg_inv_def)
  next
    case (Some cc)
    from st(2) have "seg_data_inv (?N + 1) st" by (simp add: seg_inv_def)
    from finalize_inv[OF this Some, of "?N + 1" est] Some show ?thesis
      by (simp add: st'_def finalize_fields)
  qed
  then have "frontier (?N + 1) st' \<le> ?N + 1"
    by (auto simp add: seg_data_inv_def)
  with d have "(\<forall>c\<in>set (chunks st'). chunk_ok c \<and> endLine c \<le> ?N \<and> 20 < length (trim (ctext c))) \<and>
     sorted_wrt (\<lambda>a b. endLine a < startLine b) (chunks st')"
    by (auto simp add: seg_data_inv_def)
  with cs show ?thesis by blast
qed

section \<open>The invariant of the extractor\<close>

lemma member_ok_mono: "member_ok c i m \<Longrightarrow> i \<le> j \<Longrightarrow> member_ok c j m"
  by (simp add: member_ok_def)

lemma push_member_inv:
  assumes inv: "ext_inv c i (st, res)" and ms: "methodStart st \<noteq> -1" and c1: "1 \<le> startLine c"
  shows "\<exists>res'. push_member est c cn st res = Inr res' \<and> (\<forall>m\<in>set res'. member_ok c i m)"
proof -
  from inv ms have ne: "methodLines st \<noteq> []" and m1: "1 \<le> methodStart st"
    and len: "methodStart st + int (length (methodLines st)) = i"
    and nn: "\<forall>l\<in>set (methodLines st). no_nl l"
    and old: "\<forall>m\<in>set res. member_ok c i m"
    by (auto simp add: ext_inv_def)
  from ne obtain l0 ls where l0: "methodLines st = l0 # ls" by (cases "methodLines st") auto
  have nlc: "nl_count (join_nl (methodLines st)) = length (methodLines st) - 1"
    by (rule nl_count_join[OF nn])
  have "20 < length (trim (join_nl (methodLines st))) \<Longrightarrow> member_ok c i (member_chunk est c cn st l0)"
    using nlc m1 len c1 l0 by (simp add: member_ok_def chunk_ok_def member_chunk_def)
  with old l0 show ?thesis
    by (auto simp add: push_member_def)
qed

lemma ext_step_inv:
  assumes inv: "ext_inv c i sr" and nl: "no_nl line" and i1: "1 \<le> i" and c1: "1 \<le> startLine c"
  shows "\<exists>sr'. ext_step est c cn pi i line sr = Inr sr' \<and> ext_inv c (i + 1) sr'"
proof -
  obtain st res where sr: "sr = (st, res)" by (cases sr)
  from inv sr have old: "\<forall>m\<in>set res. member_ok c (i + 1) m"
    by (auto simp add: ext_inv_def intro: member_ok_mono)
  have keep: "ext_inv c (i + 1) (st\<lparr>methodLines := methodLines st @ [line]\<rparr>, res)"
    if "methodStart st \<noteq> -1"
    using inv sr old nl that by (auto simp add: ext_inv_def)
  have keep_sig: "ext_inv c (i + 1) (st\<lparr>methodLines := methodLines st @ [line], inMethodSignature := b\<rparr>, res)"
    if "methodStart st \<noteq> -1" for b
    using inv sr old nl that by (auto simp add: ext_inv_def)
  have none: "ext_inv c (i + 1) (st, res)" if "methodStart st = -1"
    using old that by (simp add: ext_inv_def)
  have new: "ext_inv c (i + 1) (new_method i line st, res')" if "\<forall>m\<in>set res'. member_ok c (i + 1) m" for res'
    using that nl i1 by (simp add: ext_inv_def new_method_def)
  have reset: "ext_inv c (i + 1) (st\<lparr>methodStart := -1, methodLines := [], methodIndent := -1\<rparr>, res')"
    if "\<forall>m\<in>set res'. member_ok c (i + 1) m" for res'
    using that by (simp add: ext_inv_def)
  have push: "\<exists>res'. push_member est c cn st res = Inr res' \<and> (\<forall>m\<in>set res'. member_ok c (i + 1) m)"
    if "methodStart st \<noteq> -1"
  proof -
    from push_member_inv[OF inv[unfolded sr] that c1, of est cn] obtain res'
      where r: "push_member est c cn st res = Inr res'" "\<forall>m\<in>set res'. member_ok c i m" by blast
    from r(2) have "\<forall>m\<in>set res'. member_ok c (i + 1) m"
      using member_ok_mono[of c i _ "i + 1"] by simp
    with r(1) show ?thesis by blast
  qed
  show ?thesis
  proof (cases "methodStart st = -1")
    case True
    then show ?thesis
      using none new[OF old] by (simp add: ext_step_def sr Let_def)
  next
    case False
    from push[OF False] obtain res' where r: "push_member est c cn st res = Inr res'"
      "\<forall>m\<in>set res'. member_ok c (i + 1) m" by blast
    show ?thesis
      using False keep[OF False] keep_sig[OF False] new[OF r(2)] reset[OF r(2)] r(1)
      by (simp add: ext_step_def sr Let_def)
  qed
qed

lemma ext_loop_inv:
  "ext_inv c i sr \<Longrightarrow> \<forall>l\<in>set ls. no_nl l \<Longrightarrow> 1 \<le> i \<Longrightarrow> 1 \<le> startLine c \<Longrightarrow>
   \<exists>sr'. ext_loop est c cn pi i ls sr = Inr sr' \<and> ext_inv c (i + int (length ls)) sr'"
proof (induction ls arbitrary: i sr)
  case Nil
  then show ?case by simp
next
  case (Cons l ls)
  from Cons.prems have "no_nl l" by simp
  from ext_step_inv[OF Cons.prems(1) this Cons.prems(3,4), of est cn pi] obtain sr1
    where s1: "ext_step est c cn pi i l sr = Inr sr1" "ext_inv c (i + 1) sr1" by blast
  from Cons.prems have "1 \<le> i + 1" by simp
  from Cons.IH[OF s1(2) _ this Cons.prems(4)] Cons.prems(2) obtain sr'
    where a: "ext_loop est c cn pi (i + 1) ls sr1 = Inr sr'"
      and b: "ext_inv c (i + 1 + int (length ls)) sr'"
    by auto
  have "i + 1 + int (length ls) = i + int (length (l # ls))" by simp
  with b have "ext_inv c (i + int (length (l # ls))) sr'" by (simp only:)
  moreover have "ext_loop est c cn pi i (l # ls) sr = Inr sr'" using s1(1) a by simp
  ultimately show ?case by blast
qed

lemma extract_members_props:
  assumes ok: "chunk_ok c"
  shows "\<exists>ms. extract_members est c = Inr ms \<and>
     (\<forall>m\<in>set ms. chunk_ok m \<and> endLine m \<le> endLine c \<and> 20 < length (trim (ctext m)))"
proof (cases "(ctype c \<noteq> js ''class'' \<and> ctype c \<noteq> js ''struct'') \<or> length (split_nl (ctext c)) < 3")
  case True
  then show ?thesis by (auto simp add: extract_members_def Let_def)
next
  case False
  define lines where "lines = split_nl (ctext c)"
  define cn where "cn = (case match_start namePattern (hd lines) of Some m \<Rightarrow> grp 1 m | None \<Rightarrow> js ''Unknown'')"
  define pi where "pi = getIndent (hd lines)"
  have em: "extract_members est c =
      (case ext_loop est c cn pi 1 (tl lines) (ext_init, []) of
                Inl e \<Rightarrow> Inl e
              | Inr (st, res) \<Rightarrow>
                  if methodStart st \<noteq> -1 \<and> methodLines st \<noteq> []
                  then push_member est c cn st res
                  else Inr res)"
    unfolding extract_members_def Let_def lines_def cn_def pi_def using False by auto
  from ok have c1: "1 \<le> startLine c" by (simp add: chunk_ok_def)
  have L: "int (length lines) = int (nl_count (ctext c)) + 1"
    by (simp add: lines_def length_split_nl)
  have ne: "lines \<noteq> []" by (simp add: lines_def)
  have nn: "\<forall>l\<in>set (tl lines). no_nl l"
  proof
    fix l assume "l \<in> set (tl lines)"
    with ne have "l \<in> set lines" by (rule list.set_sel(2))
    then show "no_nl l" unfolding lines_def by (rule split_nl_no_nl)
  qed
  have i0: "ext_inv c 1 (ext_init, [])" by (simp add: ext_inv_def ext_init_def)
  from ext_loop_inv[OF i0 nn _ c1, of est cn pi] obtain st res
    where lp: "ext_loop est c cn pi 1 (tl lines) (ext_init, []) = Inr (st, res)"
      and inv: "ext_inv c (1 + int (length (tl lines))) (st, res)"
    by auto
  have idx: "1 + int (length (tl lines)) = int (length lines)" using ne by (cases lines) auto
  from inv have inv': "ext_inv c (int (length lines)) (st, res)" by (simp only: idx)
  have bound: "member_ok c (int (length lines)) m \<Longrightarrow>
      chunk_ok m \<and> endLine m \<le> endLine c \<and> 20 < length (trim (ctext m))" for m
    using ok L by (simp add: member_ok_def chunk_ok_def)
  show ?thesis
  proof (cases "methodStart st \<noteq> -1 \<and> methodLines st \<noteq> []")
    case True
    from push_member_inv[OF inv' _ c1, of est cn] True obtain res'
      where r: "push_member est c cn st res = Inr res'" "\<forall>m\<in>set res'. member_ok c (int (length lines)) m"
      by blast
    from True lp r(1) have "extract_members est c = Inr res'" by (simp add: em)
    with r(2) show ?thesis using bound by blast
  next
    case False
    with lp have "extract_members est c = Inr res" by (auto simp add: em)
    moreover from inv' have "\<forall>m\<in>set res. member_ok c (int (length lines)) m"
      by (simp add: ext_inv_def)
    ultimately show ?thesis using bound by blast
  qed
qed


lemma extractNestedMethods_props:
  "\<forall>c\<in>set cs. placed N c \<Longrightarrow>
   \<exists>cs'. extractNestedMethods est cs = Inr cs' \<and> (\<forall>c\<in>set cs'. placed N c)"
proof (induction cs)
  case Nil
  then show ?case by simp
next
  case (Cons c cs)
  then have pc: "placed N c" by simp
  then have ok: "chunk_ok c" by (simp add: placed_def)
  from extract_members_props[OF ok, of est] obtain ms
    where ms: "extract_members est c = Inr ms"
      "\<forall>m\<in>set ms. chunk_ok m \<and> endLine m \<le> endLine c \<and> 20 < length (trim (ctext m))"
    by blast
  from ms(2) pc have pm: "\<forall>m\<in>set ms. placed N m" by (auto simp add: placed_def)
  from Cons obtain r where r: "extractNestedMethods est cs = Inr r" "\<forall>c\<in>set r. placed N c"
    by auto
  from ms(1) r(1) have "extractNestedMethods est (c # cs) = Inr (c # ms @ r)" by simp
  moreover have "\<forall>x\<in>set (c # ms @ r). placed N x" using pc pm r(2) by auto
  ultimately show ?case by blast
qed

section \<open>The line numbers of the splitter\<close>

lemma overlap_loop_length:
  "length (fst (overlap_loop est ot ls (ov, cnt))) \<le> length ov + length ls"
proof (induction ls arbitrary: ov cnt)
  case Nil
  then show ?case by simp
next
  case (Cons l ls)
  show ?case using Cons.IH[of "l # ov" "cnt + est l"] by simp
qed

lemma split_step_pos:
  assumes inv: "split_pos_inv N c i st" and c1: "1 \<le> startLine c"
    and bound: "startLine c + i \<le> endLine c" and cN: "endLine c \<le> N"
  shows "split_pos_inv N c (i + 1) (split_step est tt ot c sl i line st)"
proof (cases "currentTokens st + est line > tt \<and> currentLines st \<noteq> []")
  case True
  define ov where "ov = overlap_loop est ot (rev (currentLines st)) ([], 0)"
  have len: "length (fst ov) \<le> length (currentLines st)"
    unfolding ov_def using overlap_loop_length[of est ot "rev (currentLines st)" "[]" 0] by simp
  from inv have pos: "s_startLine st + int (length (currentLines st)) = startLine c + i"
    and lo: "startLine c \<le> s_startLine st" and old: "\<forall>s\<in>set (result st). in_file N s"
    by (simp_all add: split_pos_inv_def)
  have seg: "in_file N (segment_of c sl st (s_startLine st + int (length (currentLines st)) - 1))"
    using True pos lo c1 bound cN by (cases "currentLines st") (auto simp add: in_file_def segment_of_def)
  have st': "split_step est tt ot c sl i line st =
      \<lparr>currentLines = fst ov @ [line], currentTokens = snd ov + est line,
       s_startLine = startLine c + i - int (length (fst ov)),
       result = result st @ [segment_of c sl st (s_startLine st + int (length (currentLines st)) - 1)]\<rparr>"
    using True by (simp add: split_step_def Let_def ov_def)
  show ?thesis
    using len pos lo old seg by (simp add: split_pos_inv_def st')
next
  case False
  then have st': "split_step est tt ot c sl i line st =
      st\<lparr>currentLines := currentLines st @ [line], currentTokens := currentTokens st + est line\<rparr>"
    by (auto simp add: split_step_def Let_def)
  show ?thesis using inv by (simp add: split_pos_inv_def st')
qed

lemma split_loop_pos:
  "split_pos_inv N c i st \<Longrightarrow> 1 \<le> startLine c \<Longrightarrow>
   startLine c + i + int (length ls) \<le> endLine c + 1 \<Longrightarrow> endLine c \<le> N \<Longrightarrow>
   split_pos_inv N c (i + int (length ls)) (split_loop est tt ot c sl i ls st)"
proof (induction ls arbitrary: i st)
  case Nil
  then show ?case by simp
next
  case (Cons l ls)
  from Cons.prems(3) have b: "startLine c + i \<le> endLine c" by simp
  have 1: "split_pos_inv N c (i + 1) (split_step est tt ot c sl i l st)"
    by (rule split_step_pos[OF Cons.prems(1,2) b Cons.prems(4)])
  from Cons.prems(3) have b2: "startLine c + (i + 1) + int (length ls) \<le> endLine c + 1" by simp
  have "split_pos_inv N c (i + 1 + int (length ls))
      (split_loop est tt ot c sl (i + 1) ls (split_step est tt ot c sl i l st))"
    by (rule Cons.IH[OF 1 Cons.prems(2) b2 Cons.prems(4)])
  moreover have "i + 1 + int (length ls) = i + int (length (l # ls))" by simp
  ultimately show ?case by (simp only: split_loop.simps)
qed

lemma limit_chunk_pos:
  assumes ok: "chunk_ok c" and cN: "endLine c \<le> N" and old: "\<forall>s\<in>set res. in_file N s"
  shows "\<forall>s\<in>set (limit_chunk est tt ot c res). in_file N s"
proof (cases "2 * tokenCount c \<le> 3 * tt")
  case True
  with ok cN old show ?thesis by (auto simp add: limit_chunk_def in_file_def chunk_ok_def)
next
  case False
  define sl where "sl = (if signature c \<noteq> [] then signature c else hd (split_nl (ctext c)))"
  define st0 where "st0 = \<lparr>currentLines = [], currentTokens = 0, s_startLine = startLine c, result = res\<rparr>"
  define st where "st = split_loop est tt ot c sl 0 (split_nl (ctext c)) st0"
  have lc: "limit_chunk est tt ot c res =
      (if currentLines st \<noteq> [] \<and> length (trim (join_nl (currentLines st))) > 20
       then result st @ [segment_of c sl st (endLine c)] else result st)"
    using False by (simp add: limit_chunk_def Let_def st_def st0_def sl_def)
  from ok have c1: "1 \<le> startLine c" and L: "startLine c + int (nl_count (ctext c)) \<le> endLine c"
    by (simp_all add: chunk_ok_def)
  have i0: "split_pos_inv N c 0 st0" using old by (simp add: split_pos_inv_def st0_def)
  have b: "startLine c + 0 + int (length (split_nl (ctext c))) \<le> endLine c + 1"
    using L by (simp add: length_split_nl)
  from split_loop_pos[OF i0 c1 b cN, of est tt ot sl]
  have inv: "split_pos_inv N c (int (length (split_nl (ctext c)))) st" by (simp add: st_def)
  then have res: "\<forall>s\<in>set (result st). in_file N s" by (simp add: split_pos_inv_def)
  have "in_file N (segment_of c sl st (endLine c))" if "currentLines st \<noteq> []"
  proof -
    from that have "1 \<le> int (length (currentLines st))" by (cases "currentLines st") auto
    with inv L c1 cN show ?thesis
      by (simp add: split_pos_inv_def in_file_def segment_of_def length_split_nl)
  qed
  with res show ?thesis by (auto simp add: lc)
qed

lemma limit_loop_pos:
  "\<forall>c\<in>set cs. chunk_ok c \<and> endLine c \<le> N \<Longrightarrow> \<forall>s\<in>set res. in_file N s \<Longrightarrow>
   \<forall>s\<in>set (limit_loop est tt ot cs res). in_file N s"
proof (induction cs arbitrary: res)
  case Nil
  then show ?case by simp
next
  case (Cons c cs)
  from Cons.prems have "chunk_ok c" "endLine c \<le> N" by simp_all
  from limit_chunk_pos[OF this Cons.prems(2)]
  have "\<forall>s\<in>set (limit_chunk est tt ot c res). in_file N s" .
  from Cons.IH[OF _ this] Cons.prems(1) show ?case by simp
qed

lemma chunks_of_lines_in_file:
  assumes "\<forall>l\<in>set lines. no_nl l"
  shows "\<exists>cs. chunks_of_lines est tt ot lines = Inr cs \<and>
     (\<forall>c\<in>set cs. in_file (int (length lines)) c)"
proof -
  let ?N = "int (length lines)"
  from seg_lines_props[OF assms, of est] obtain cs
    where cs: "seg_lines est lines = Inr cs" "\<forall>c\<in>set cs. placed ?N c"
    by (auto simp add: placed_def)
  from extractNestedMethods_props[OF cs(2), of est] obtain cs'
    where cs': "extractNestedMethods est cs = Inr cs'" "\<forall>c\<in>set cs'. placed ?N c"
    by blast
  from cs'(2) have "\<forall>c\<in>set cs'. chunk_ok c \<and> endLine c \<le> ?N" by (simp add: placed_def)
  from limit_loop_pos[OF this, of "[]" est tt ot]
  have "\<forall>s\<in>set (applyTokenLimits est tt ot cs'). in_file ?N s"
    by (simp add: applyTokenLimits_def)
  with cs(1) cs'(1) show ?thesis by (simp add: chunks_of_lines_def)
qed

section \<open>The fuel of the matcher\<close>

text \<open>
  Every result of the matcher leaves a rest that is no longer than the input, and any two
  amounts of fuel that are at least the length of the input give the same results: the
  fuel that \<open>match_start\<close> passes never cuts a match short.
\<close>

lemma rm_shorter:
  "x \<in> set (rm n r sc) \<Longrightarrow> length (fst x) \<le> length (fst sc)"
proof (induction n r sc arbitrary: x rule: rm.induct)
  case (1 n p s c)
  then show ?case by (auto split: list.splits if_splits)
next
  case (2 n sc)
  then show ?case by simp
next
  case (3 n s c)
  then show ?case by (auto split: if_splits)
next
  case (4 n a b sc)
  from "4.prems" obtain y where y: "y \<in> set (rm n a sc)" "x \<in> set (rm n b y)" by auto
  from "4.IH"(1)[OF y(1)] "4.IH"(2)[OF y(1) y(2)] show ?case by simp
next
  case (5 n a b sc)
  from "5.prems" have "x \<in> set (rm n a sc) \<or> x \<in> set (rm n b sc)" by simp
  then show ?case using "5.IH"(1)[of x] "5.IH"(2)[of x] by blast
next
  case (6 n k a s c)
  from "6.prems" obtain y where y: "y \<in> set (rm n a (s, c))" "fst x = fst y"
    by (auto split: prod.splits)
  from "6.IH"[OF y(1)] y(2) show ?case by simp
next
  case (7 a sc)
  then show ?case by simp
next
  case (8 n a s c)
  show ?case
  proof (cases "x = (s, c)")
    case True
    then show ?thesis by simp
  next
    case False
    with "8.prems" obtain y where y: "y \<in> set (rm (Suc n) a (s, c))" "length (fst y) < length s"
      "x \<in> set (rm n (Star a) y)"
      by auto
    from y(1,2) have "y \<in> set (filter (\<lambda>(t, c'). length t < length s) (rm (Suc n) a (s, c)))"
      by (cases y) auto
    from "8.IH"(2)[OF this y(3)] y(2) show ?thesis by simp
  qed
qed

lemma rm_fuel:
  "length (fst sc) \<le> n \<Longrightarrow> length (fst sc) \<le> m \<Longrightarrow> rm n r sc = rm m r sc"
proof (induction n r sc arbitrary: m rule: rm.induct)
  case (1 n p s c)
  then show ?case by simp
next
  case (2 n sc)
  then show ?case by simp
next
  case (3 n s c)
  then show ?case by simp
next
  case (4 n a b sc)
  have a: "rm n a sc = rm m a sc" by (rule "4.IH"(1)[OF "4.prems"])
  have "rm n b y = rm m b y" if "y \<in> set (rm n a sc)" for y
  proof -
    from rm_shorter[OF that] "4.prems" have "length (fst y) \<le> n" "length (fst y) \<le> m" by simp_all
    from "4.IH"(2)[OF that this] show ?thesis .
  qed
  then have "map (rm n b) (rm n a sc) = map (rm m b) (rm n a sc)" by simp
  then have "concat (map (rm n b) (rm n a sc)) = concat (map (rm m b) (rm n a sc))"
    by (rule arg_cong)
  then show ?case by (simp only: rm.simps a)
next
  case (5 n a b sc)
  from "5.IH"(1)[OF "5.prems"] "5.IH"(2)[OF "5.prems"] show ?case by simp
next
  case (6 n k a s c)
  from "6.IH"[of m] "6.prems" show ?case by simp
next
  case (7 a sc)
  obtain s c where sc: "sc = (s, c)" by (cases sc)
  with "7.prems" have s: "s = []" by simp
  show ?case
  proof (cases m)
    case 0
    then show ?thesis by simp
  next
    case (Suc m')
    then show ?thesis by (simp add: sc s)
  qed
next
  case (8 n a s c)
  show ?case
  proof (cases m)
    case 0
    with "8.prems" have "s = []" by simp
    with 0 show ?thesis by simp
  next
    case (Suc m')
    let ?f = "filter (\<lambda>(t, c'). length t < length s)"
    have a: "rm (Suc n) a (s, c) = rm (Suc m') a (s, c)"
      using "8.IH"(1)[of "Suc m'"] "8.prems" Suc by simp
    have "rm n (Star a) y = rm m' (Star a) y" if "y \<in> set (?f (rm (Suc n) a (s, c)))" for y
    proof -
      from that have "case y of (t, c') \<Rightarrow> length t < length s" by simp
      then have "length (fst y) < length s" by (cases y) simp
      with "8.prems" Suc have "length (fst y) \<le> n" "length (fst y) \<le> m'" by simp_all
      from "8.IH"(2)[OF that this] show ?thesis .
    qed
    then have "map (rm n (Star a)) (?f (rm (Suc n) a (s, c))) = map (rm m' (Star a)) (?f (rm (Suc n) a (s, c)))"
      by simp
    then have "concat (map (rm n (Star a)) (?f (rm (Suc n) a (s, c)))) =
        concat (map (rm m' (Star a)) (?f (rm (Suc n) a (s, c))))"
      by (rule arg_cong)
    then have "concat (map (rm n (Star a)) (?f (rm (Suc n) a (s, c)))) @ [(s, c)] =
        concat (map (rm m' (Star a)) (?f (rm (Suc m') a (s, c)))) @ [(s, c)]"
      by (simp only: a)
    then show ?thesis by (simp only: rm.simps Suc)
  qed
qed

lemma match_start_fuel:
  "length s \<le> n \<Longrightarrow> match_start r s = (case rm n r (s, []) of [] \<Rightarrow> None | (t, c) # _ \<Rightarrow> Some c)"
  using rm_fuel[of "(s, [])" "length s" n r] by (simp add: match_start_def)

section \<open>The kinds of the builders\<close>











lemma startChunk_type [simp]: "b_type (startChunk n line i ty hb) = ty"
  by (simp add: startChunk_def)









section \<open>Header-only methods\<close>





section \<open>The indentation depth of a tab\<close>

text \<open>
  C5 on the code. The depth of a line is the number of its leading whitespace
  characters, so a tab counts as one column: a line that starts with two tabs has depth 2,
  where the count with a tab width of 4 is 8, and a header that starts with one tab gets
  the base indentation 1. A function indented by 4 spaces whose body line is indented by
  two tabs loses its body, which the same file with 8 spaces in place of the tabs keeps.
\<close>

theorem tab_counts_one_column:
  "getIndent line = length (takeWhile is_space line) \<and>
   getIndent ([9, 9] @ js ''ResultValue'') = 2 \<and>
   depth_tab4 ([9, 9] @ js ''ResultValue'') = 8 \<and>
   (case seg_loop length 1 [[9] @ js ''ComputeTotal(a:int)<t>:int=''] seg_init of
      Inr st \<Rightarrow> map_option baseIndent (currentChunk st) | Inl e \<Rightarrow> None) = Some 1 \<and>
   map_chunks (\<lambda>c. (startLine c, endLine c, ctext c))
      (chunkVerseFile length 1000 100 tab_body_example) =
     Inr [(1, 1, js ''ComputeTotal(a:int)<t>:int='')] \<and>
   map_chunks (\<lambda>c. (startLine c, endLine c, ctext c))
      (chunkVerseFile length 1000 100 space_body_example) =
     Inr [(1, 2, join_nl [js ''ComputeTotal(a:int)<t>:int='', js ''        ResultValue''])]"
proof (intro conjI)
  show "getIndent line = length (takeWhile is_space line)" by (rule getIndent_takeWhile)
  show "getIndent ([9, 9] @ js ''ResultValue'') = 2"
    by (simp add: getIndent_takeWhile is_space_def js_def)
  show "depth_tab4 ([9, 9] @ js ''ResultValue'') = 8"
    by (simp add: depth_tab4_def is_space_def js_def)
  show "(case seg_loop length 1 [[9] @ js ''ComputeTotal(a:int)<t>:int=''] seg_init of
      Inr st \<Rightarrow> map_option baseIndent (currentChunk st) | Inl e \<Rightarrow> None) = Some 1"
    by (simp add: all_defs)
  show "map_chunks (\<lambda>c. (startLine c, endLine c, ctext c))
      (chunkVerseFile length 1000 100 tab_body_example) =
     Inr [(1, 1, js ''ComputeTotal(a:int)<t>:int='')]"
    by (simp add: tab_body_example_def all_defs)
  show "map_chunks (\<lambda>c. (startLine c, endLine c, ctext c))
      (chunkVerseFile length 1000 100 space_body_example) =
     Inr [(1, 2, join_nl [js ''ComputeTotal(a:int)<t>:int='', js ''        ResultValue''])]"
    by (simp add: space_body_example_def all_defs)
qed

section \<open>The continuation mark\<close>

text \<open>
  C6 on the code. With a target of 30 and an estimate of one token per character, the
  function of \<open>continued_example\<close> is split into three segments. An enum chunk is
  emitted before it, and all three segments carry the continuation mark, the first
  included. When the same function is the first chunk of the file, its first segment keeps
  the signature.
\<close>

theorem first_segment_marked_continued:
  "map_chunks (\<lambda>c. (startLine c, signature c)) (chunkVerseFile length 30 0 continued_example) =
     Inr [(1, js ''ab:=enum{Left,Right,Up}''),
          (2, js ''(continued) F()<t>:int=''),
          (3, js ''(continued) F()<t>:int=''),
          (4, js ''(continued) F()<t>:int='')] \<and>
   map_chunks (\<lambda>c. (startLine c, signature c))
       (chunkVerseFile length 30 0 oversized_first_example) =
     Inr [(1, js ''F()<t>:int=''),
          (2, js ''(continued) F()<t>:int=''),
          (3, js ''(continued) F()<t>:int='')]"
  by (simp add: continued_example_def oversized_first_example_def all_defs)

section \<open>The token budget\<close>










section \<open>The end of the file\<close>

text \<open>
  C8, as the code has it. When the loop ends with a builder open, the builder is
  finalized with the number of lines as end line; its text is emitted as the last chunk
  when the trimmed text is longer than 20 characters, and is discarded otherwise.
\<close>

theorem eof_finalizes_open_builder:
  assumes "seg_loop est 1 (split_lines content) seg_init = Inr st"
    and "currentChunk st = Some cc"
  shows "\<exists>c. endLine c = int (length (split_lines content)) \<and>
             ctext c = fullContent (with_attributes (attributeLines st) cc) \<and>
             segmenter est content =
               Inr (if 20 < length (trim (ctext c)) then chunks st @ [c] else chunks st)"
proof -
  let ?c = "chunk_of est (int (length (split_lines content))) (with_attributes (attributeLines st) cc)"
  have "endLine ?c = int (length (split_lines content))"
    and "ctext ?c = fullContent (with_attributes (attributeLines st) cc)"
    by (simp_all add: chunk_of_def)
  moreover have "segmenter est content =
               Inr (if 20 < length (trim (ctext ?c)) then chunks st @ [?c] else chunks st)"
    using assms by (simp add: segmenter_def seg_lines_def finalizeChunk_def chunk_of_def Let_def)
  ultimately show ?thesis by blast
qed


theorem eof_finalizes_open_builder_witness:
  "seg_loop length 1 (split_lines unterminated_long_example) seg_init = Inr unterminated_long_state \<and>
   (\<exists>c. endLine c = 2 \<and> ctext c = unterminated_long_example \<and>
        segmenter length unterminated_long_example = Inr [c])"
proof -
  have loop: "seg_loop length 1 (split_lines unterminated_long_example) seg_init =
      Inr unterminated_long_state"
    by (simp add: unterminated_long_example_def unterminated_long_state_def all_defs)
  have cur: "currentChunk unterminated_long_state = Some \<lparr>b_startLine = 1,
        signatureLines = [js ''Compute(first: int,'', js ''  second: int''],
        bodyLines = [], baseIndent = 0, b_type = js ''function'', hasBody = False\<rparr>"
    by (simp add: unterminated_long_state_def)
  from eof_finalizes_open_builder[OF loop cur] loop show ?thesis
    by (simp add: unterminated_long_example_def unterminated_long_state_def all_defs)
qed

text \<open>
  C8 as stated fails: the header \<open>Foo(\<close> followed by one line is still open at the end
  of the file, and nothing is emitted, since its text has 8 characters.
\<close>

theorem unterminated_header_dropped_counterexample:
  "seg_loop length 1 (split_lines unterminated_example) seg_init =
     Inr \<lparr>state = IN_SIGNATURE,
          currentChunk = Some \<lparr>b_startLine = 1, signatureLines = [js ''Foo('', js ''  x''],
            bodyLines = [], baseIndent = 0, b_type = js ''function'', hasBody = False\<rparr>,
          attributeLines = [], chunks = []\<rparr> \<and>
   chunkVerseFile length 1000 100 unterminated_example = Inr []"
  by (simp add: unterminated_example_def all_defs)

section \<open>Attributes\<close>

lemma seg_loop_skip_blank:
  "state st = IDLE \<Longrightarrow> \<forall>l\<in>set bs. test_start emptyOrWhitespace l \<Longrightarrow>
   seg_loop est n (bs @ ls) st = seg_loop est (n + int (length bs)) ls st"
proof (induction bs arbitrary: n)
  case Nil
  then show ?case by simp
next
  case (Cons b bs)
  then have "step est n b st = Inr st" by (simp add: step_def)
  moreover have "seg_loop est (n + 1) (bs @ ls) st = seg_loop est (n + 1 + int (length bs)) ls st"
    using Cons.IH[of "n + 1"] Cons.prems by simp
  ultimately show ?case by (simp add: add.assoc)
qed

lemma finalize_with_attributes:
  assumes "currentChunk st = Some cc" "attributeLines st = (a, t) # as"
    and "20 < length (trim (fullContent (with_attributes (attributeLines st) cc)))"
  shows "\<exists>c. chunks (finalizeChunk est e st) = chunks st @ [c] \<and> startLine c = a \<and>
             ctext c = trim (join_nl (t # map snd as @ signatureLines cc)) @
                        (if join_nl (bodyLines cc) \<noteq> [] then 10 # join_nl (bodyLines cc) else [])"
  using assms
  by (cases "join_nl (bodyLines cc) = []")
    (simp_all add: finalizeChunk_def chunk_of_def with_attributes_def fullContent_def sig_of_def Let_def)

lemma idle_content_discards:
  assumes "state st = IDLE" "\<not> test_start using_pat l" "\<not> isBlankOrComment l"
    "\<not> test_start attribute l" "match_start classOrStruct l = None"
    "match_start moduleDecl l = None" "match_start extensionStart l = None"
    "match_start simpleFunction l = None" "match_start functionStart l = None"
  shows "step est n l st = Inr (st\<lparr>attributeLines := []\<rparr>)"
  using assms by (cases "attributeLines st = []") (auto simp add: step_def idle_step_def isBlankOrComment_def Let_def)

lemma finalize_empties_buffer:
  assumes "currentChunk st = Some cc"
  shows "attributeLines (finalizeChunk est e st) = [] \<and>
      (\<not> 20 < length (trim (fullContent (with_attributes (attributeLines st) cc))) \<longrightarrow>
         chunks (finalizeChunk est e st) = chunks st)"
  using assms by (simp add: finalizeChunk_def Let_def)

text \<open>
  C4, as the code has it. While idle, blank lines are skipped and leave the attribute
  buffer as it is, so attributes stay bound to the next definition across blank lines.
  When a builder is finalized with a non-empty buffer and its text passes the size floor,
  the chunk starts at the line of the first buffered attribute and the text of the
  attribute lines is prepended to the header. Every finalization of an open builder
  empties the buffer; when the text does not pass the floor, no chunk is emitted and the
  attributes are dropped with it. While idle, a line that is no directive, not blank, no
  comment, no attribute and no definition start empties the buffer.
\<close>

theorem attributes_bind_across_blank_lines:
  "(state st = IDLE \<and> (\<forall>l\<in>set bs. test_start emptyOrWhitespace l) \<longrightarrow>
      seg_loop est n (bs @ ls) st = seg_loop est (n + int (length bs)) ls st) \<and>
   (currentChunk st = Some cc \<and> attributeLines st = (a, t) # as \<and>
      20 < length (trim (fullContent (with_attributes (attributeLines st) cc))) \<longrightarrow>
      (\<exists>c. chunks (finalizeChunk est e st) = chunks st @ [c] \<and> startLine c = a \<and>
           ctext c = trim (join_nl (t # map snd as @ signatureLines cc)) @
                      (if join_nl (bodyLines cc) \<noteq> [] then 10 # join_nl (bodyLines cc) else []))) \<and>
   (state st = IDLE \<and> \<not> test_start using_pat l \<and> \<not> isBlankOrComment l \<and>
      \<not> test_start attribute l \<and> match_start classOrStruct l = None \<and>
      match_start moduleDecl l = None \<and> match_start extensionStart l = None \<and>
      match_start simpleFunction l = None \<and> match_start functionStart l = None \<longrightarrow>
      step est n l st = Inr (st\<lparr>attributeLines := []\<rparr>)) \<and>
   (currentChunk st = Some cc \<longrightarrow>
      attributeLines (finalizeChunk est e st) = [] \<and>
      (\<not> 20 < length (trim (fullContent (with_attributes (attributeLines st) cc))) \<longrightarrow>
         chunks (finalizeChunk est e st) = chunks st))"
  using seg_loop_skip_blank[of st bs est n ls] finalize_with_attributes[of st cc a t as est e]
    idle_content_discards[of st l est n] finalize_empties_buffer[of st cc est e]
  by blast

theorem attributes_bind_across_blank_lines_witness:
  "seg_loop length 2 ([[]] @ [js ''F()<t>:int='', js ''    Result'']) attr_state =
     seg_loop length 3 [js ''F()<t>:int='', js ''    Result''] attr_state \<and>
   (\<exists>c. chunks (finalizeChunk length 4 attr_open_state) = [c] \<and> startLine c = 1 \<and>
        ctext c = join_nl [js ''@editable'', js ''F()<t>:int='', js ''    Result'']) \<and>
   step length 2 (js ''Value : int = 0'') attr_state = Inr (attr_state\<lparr>attributeLines := []\<rparr>) \<and>
   seg_loop length 1 (take 2 (split_lines attr_short_example)) seg_init = Inr attr_short_state \<and>
   attributeLines (finalizeChunk length 2 attr_short_state) = [] \<and>
   chunks (finalizeChunk length 2 attr_short_state) = [] \<and>
   map_chunks (\<lambda>c. (startLine c, endLine c, ctext c)) (segmenter length attr_short_example) =
     Inr [(3, 4, join_nl [js ''G()<t>:int='', js ''    ResultValueIsLong''])]"
proof -
  let ?b = "\<lparr>b_startLine = 2, signatureLines = [js ''F():int=''], bodyLines = [],
        baseIndent = 0, b_type = js ''function'', hasBody = True\<rparr>"
  have short: "currentChunk attr_short_state = Some ?b"
    by (simp add: attr_short_state_def)
  have low: "\<not> 20 < length (trim (fullContent (with_attributes (attributeLines attr_short_state) ?b)))"
    by (simp add: attr_short_state_def all_defs)
  from attributes_bind_across_blank_lines[where st = attr_short_state and cc = ?b and est = length
        and e = 2, THEN conjunct2, THEN conjunct2, THEN conjunct2, THEN mp, OF short] low
  have four: "attributeLines (finalizeChunk length 2 attr_short_state) = [] \<and>
      chunks (finalizeChunk length 2 attr_short_state) = []"
    by (simp add: attr_short_state_def)
  have reach: "seg_loop length 1 (take 2 (split_lines attr_short_example)) seg_init =
      Inr attr_short_state"
    by (simp add: attr_short_example_def attr_short_state_def all_defs)
  have whole: "map_chunks (\<lambda>c. (startLine c, endLine c, ctext c)) (segmenter length attr_short_example) =
     Inr [(3, 4, join_nl [js ''G()<t>:int='', js ''    ResultValueIsLong''])]"
    by (simp add: attr_short_example_def all_defs)
  have blank: "state attr_state = IDLE \<and> (\<forall>l\<in>set [[]]. test_start emptyOrWhitespace l)"
    by (simp add: attr_state_def rx_defs)
  have fin: "currentChunk attr_open_state = Some attr_builder \<and>
      attributeLines attr_open_state = (1, js ''@editable'') # [] \<and>
      20 < length (trim (fullContent (with_attributes (attributeLines attr_open_state) attr_builder)))"
    by (simp add: attr_open_state_def attr_builder_def all_defs)
  have other: "state attr_state = IDLE \<and> \<not> test_start using_pat (js ''Value : int = 0'') \<and>
      \<not> isBlankOrComment (js ''Value : int = 0'') \<and>
      \<not> test_start attribute (js ''Value : int = 0'') \<and>
      match_start classOrStruct (js ''Value : int = 0'') = None \<and>
      match_start moduleDecl (js ''Value : int = 0'') = None \<and>
      match_start extensionStart (js ''Value : int = 0'') = None \<and>
      match_start simpleFunction (js ''Value : int = 0'') = None \<and>
      match_start functionStart (js ''Value : int = 0'') = None"
    by (simp add: attr_state_def js_def rx_defs)
  from attributes_bind_across_blank_lines[of attr_state "[[]]" length 2
        "[js ''F()<t>:int='', js ''    Result'']", THEN conjunct1, THEN mp, OF blank]
  have one: "seg_loop length 2 ([[]] @ [js ''F()<t>:int='', js ''    Result'']) attr_state =
     seg_loop length 3 [js ''F()<t>:int='', js ''    Result''] attr_state"
    by simp
  from attributes_bind_across_blank_lines[where st = attr_open_state and a = 1
        and cc = attr_builder and t = "js ''@editable''" and as = "[]" and est = length and e = 4,
        THEN conjunct2, THEN conjunct1, THEN mp, OF fin]
  have "\<exists>c. chunks (finalizeChunk length 4 attr_open_state) = chunks attr_open_state @ [c] \<and>
        startLine c = 1 \<and>
        ctext c = trim (join_nl (js ''@editable'' # map snd [] @ signatureLines attr_builder)) @
                      (if join_nl (bodyLines attr_builder) \<noteq> []
                       then 10 # join_nl (bodyLines attr_builder) else [])"
    by simp
  then have two: "\<exists>c. chunks (finalizeChunk length 4 attr_open_state) = [c] \<and> startLine c = 1 \<and>
        ctext c = join_nl [js ''@editable'', js ''F()<t>:int='', js ''    Result'']"
    by (simp add: attr_open_state_def attr_builder_def js_def trim_def is_space_def)
  from attributes_bind_across_blank_lines[where st = attr_state and l = "js ''Value : int = 0''"
        and est = length and n = 2, THEN conjunct2, THEN conjunct2, THEN conjunct1, THEN mp, OF other]
  have three: "step length 2 (js ''Value : int = 0'') attr_state = Inr (attr_state\<lparr>attributeLines := []\<rparr>)"
    by simp
  from one two three four reach whole show ?thesis by blast
qed

text \<open>
  C4 as stated fails: with a blank line between the attribute and the function, the chunk
  starts at line 1, the line of the attribute, and its text begins with the attribute.
\<close>

theorem attribute_kept_across_blank_counterexample:
  "map_chunks (\<lambda>c. (startLine c, endLine c, ctext c))
      (chunkVerseFile length 1000 100 attribute_blank_example) =
     Inr [(1, 4, join_nl [js ''@editable'', js ''F()<t>:int='', js ''    Result''])]"
  by (simp add: attribute_blank_example_def all_defs)

section \<open>Small classes\<close>

text \<open>
  C10. A chunk whose text has fewer than 3 lines gets no member chunk: it passes through
  the extractor alone. Whenever the extractor adds members to a chunk, the chunk is of
  kind class or struct and its text has at least 3 lines.
\<close>

theorem extractor_needs_three_lines:
  "(length (split_nl (ctext c)) < 3 \<longrightarrow>
      extract_members est c = Inr [] \<and>
      extractNestedMethods est (c # cs) =
        (case extractNestedMethods est cs of Inl e \<Rightarrow> Inl e | Inr r \<Rightarrow> Inr (c # r))) \<and>
   (\<forall>ms. extract_members est c = Inr ms \<and> ms \<noteq> [] \<longrightarrow>
      (ctype c = js ''class'' \<or> ctype c = js ''struct'') \<and> 3 \<le> length (split_nl (ctext c)))"
proof (intro conjI impI allI)
  assume small: "length (split_nl (ctext c)) < 3"
  then show none: "extract_members est c = Inr []"
    by (simp add: extract_members_def Let_def)
  show "extractNestedMethods est (c # cs) =
        (case extractNestedMethods est cs of Inl e \<Rightarrow> Inl e | Inr r \<Rightarrow> Inr (c # r))"
    by (simp add: none split: sum.splits)
next
  fix ms
  assume ms: "extract_members est c = Inr ms \<and> ms \<noteq> []"
  then show "ctype c = js ''class'' \<or> ctype c = js ''struct''"
    by (auto simp add: extract_members_def split: if_splits)
  show "3 \<le> length (split_nl (ctext c))"
  proof (rule ccontr)
    assume "\<not> 3 \<le> length (split_nl (ctext c))"
    then have "extract_members est c = Inr []"
      by (simp add: extract_members_def Let_def)
    with ms show False by auto
  qed
qed

theorem extractor_needs_three_lines_witness:
  "length (split_nl (ctext small_class_chunk)) < 3 \<and>
   extractNestedMethods length [small_class_chunk] = Inr [small_class_chunk] \<and>
   (\<exists>m. extract_members length class_method_chunk = Inr [m]) \<and>
   ctype class_method_chunk = js ''class'' \<and>
   3 \<le> length (split_nl (ctext class_method_chunk))"
proof -
  have small: "length (split_nl (ctext small_class_chunk)) < 3"
    by (simp add: small_class_chunk_def small_class_example_def js_def)
  have "\<exists>m. extract_members length class_method_chunk = Inr [m]"
    by (simp add: class_method_chunk_def class_method_example_def all_defs)
  then obtain m where m: "extract_members length class_method_chunk = Inr [m]" by blast
  from extractor_needs_three_lines[of small_class_chunk length "[]"] small
  have "extractNestedMethods length [small_class_chunk] = Inr [small_class_chunk]"
    by simp
  moreover from extractor_needs_three_lines[of class_method_chunk length "[]"] m
  have "(ctype class_method_chunk = js ''class'' \<or> ctype class_method_chunk = js ''struct'') \<and>
      3 \<le> length (split_nl (ctext class_method_chunk))"
    by blast
  moreover have "ctype class_method_chunk = js ''class''"
    by (simp add: class_method_chunk_def)
  ultimately show ?thesis using small m by blast
qed

section \<open>Line ranges\<close>

lemma split_lines_all_no_nl: "\<forall>l\<in>set (split_lines content). no_nl l"
  using split_lines_no_nl by blast

text \<open>
  C1. The pipeline never throws, and every chunk of its output has a line range within
  the file: \<open>1 \<le> startLine \<le> endLine \<le> lineCount\<close>, the number of lines being that of
  the split of the content. The output holds the chunks of the segmenter, the members
  added by the extractor and the segments of the splitter.
\<close>

theorem chunk_lines_within_file:
  "\<exists>cs. chunkVerseFile est targetTokens overlapTokens content = Inr cs \<and>
        (\<forall>c\<in>set cs. 1 \<le> startLine c \<and> startLine c \<le> endLine c \<and>
                      endLine c \<le> int (length (split_lines content)))"
  using chunks_of_lines_in_file[OF split_lines_all_no_nl, of est targetTokens overlapTokens content]
  by (simp add: chunkVerseFile_def in_file_def)

theorem chunk_lines_within_file_witness:
  "map_chunks (\<lambda>c. (startLine c, endLine c)) (chunkVerseFile length 30 10 class_method_example) =
     Inr [(1, 1), (2, 2), (2, 3)] \<and>
   length (split_lines class_method_example) = 3 \<and>
   (\<exists>cs. chunkVerseFile length 30 10 class_method_example = Inr cs \<and> cs \<noteq> [] \<and>
      (\<forall>c\<in>set cs. 1 \<le> startLine c \<and> startLine c \<le> endLine c \<and> endLine c \<le> 3))"
proof -
  have ev: "map_chunks (\<lambda>c. (startLine c, endLine c)) (chunkVerseFile length 30 10 class_method_example) =
     Inr [(1, 1), (2, 2), (2, 3)]"
    by (simp add: class_method_example_def all_defs)
  have len: "length (split_lines class_method_example) = 3"
    by (simp add: class_method_example_def js_def)
  from chunk_lines_within_file[of length 30 10 class_method_example] obtain cs
    where cs: "chunkVerseFile length 30 10 class_method_example = Inr cs"
      "\<forall>c\<in>set cs. 1 \<le> startLine c \<and> startLine c \<le> endLine c \<and>
                      endLine c \<le> int (length (split_lines class_method_example))"
    by blast
  from ev cs(1) have "cs \<noteq> []" by auto
  with cs len ev show ?thesis by auto
qed

section \<open>Disjoint ranges\<close>

text \<open>
  C2. The segmenter never throws, and any two chunks at distinct positions of its output
  have disjoint line ranges. A line of a body that is neither blank nor a comment and is
  indented at most as the builder ends the body: the builder is finalized at the previous
  line and the same line is then processed by the idle rules.
\<close>

theorem segmenter_chunks_disjoint:
  "(\<exists>cs. segmenter est content = Inr cs \<and>
      (\<forall>i<length cs. \<forall>j<length cs. i \<noteq> j \<longrightarrow>
         {startLine (cs ! i)..endLine (cs ! i)} \<inter> {startLine (cs ! j)..endLine (cs ! j)} = {})) \<and>
   (state st = IN_BODY \<and> currentChunk st = Some cc \<and> \<not> isBlankOrComment line \<and>
      getIndent line \<le> baseIndent cc \<longrightarrow>
      step est n line st =
        Inr (idle_step est n line ((finalizeChunk est (n - 1) st)\<lparr>state := IDLE\<rparr>)))"
proof (intro conjI impI)
  from seg_lines_props[OF split_lines_all_no_nl, of est content] obtain cs
    where cs: "segmenter est content = Inr cs" "\<forall>c\<in>set cs. chunk_ok c"
      "sorted_wrt (\<lambda>a b. endLine a < startLine b) cs"
    by (auto simp add: segmenter_def)
  have "{startLine (cs ! i)..endLine (cs ! i)} \<inter> {startLine (cs ! j)..endLine (cs ! j)} = {}"
    if "i < j" "j < length cs" for i j
  proof -
    from cs(3) that have "endLine (cs ! i) < startLine (cs ! j)"
      by (simp add: sorted_wrt_iff_nth_less)
    then show ?thesis by auto
  qed
  then have "\<forall>i<length cs. \<forall>j<length cs. i \<noteq> j \<longrightarrow>
         {startLine (cs ! i)..endLine (cs ! i)} \<inter> {startLine (cs ! j)..endLine (cs ! j)} = {}"
    by (metis Int_commute linorder_neqE_nat)
  with cs(1) show "\<exists>cs. segmenter est content = Inr cs \<and>
      (\<forall>i<length cs. \<forall>j<length cs. i \<noteq> j \<longrightarrow>
         {startLine (cs ! i)..endLine (cs ! i)} \<inter> {startLine (cs ! j)..endLine (cs ! j)} = {})"
    by blast
next
  assume "state st = IN_BODY \<and> currentChunk st = Some cc \<and> \<not> isBlankOrComment line \<and>
      getIndent line \<le> baseIndent cc"
  then show "step est n line st =
        Inr (idle_step est n line ((finalizeChunk est (n - 1) st)\<lparr>state := IDLE\<rparr>))"
    by (simp add: step_def Let_def)
qed

theorem segmenter_chunks_disjoint_witness:
  "map_chunks (\<lambda>c. (startLine c, endLine c)) (segmenter length two_functions_example) =
     Inr [(1, 2), (3, 4)] \<and>
   (\<exists>cs. segmenter length two_functions_example = Inr cs \<and> length cs = 2 \<and>
      {startLine (cs ! 0)..endLine (cs ! 0)} \<inter> {startLine (cs ! 1)..endLine (cs ! 1)} = {}) \<and>
   seg_loop length 1 (take 2 (split_lines two_functions_example)) seg_init = Inr first_open_state \<and>
   step length 3 (js ''Second()<t>:int='') first_open_state =
     Inr (idle_step length 3 (js ''Second()<t>:int='')
           ((finalizeChunk length (3 - 1) first_open_state)\<lparr>state := IDLE\<rparr>))"
proof -
  have ev: "map_chunks (\<lambda>c. (startLine c, endLine c)) (segmenter length two_functions_example) =
     Inr [(1, 2), (3, 4)]"
    by (simp add: two_functions_example_def all_defs)
  have reach: "seg_loop length 1 (take 2 (split_lines two_functions_example)) seg_init =
      Inr first_open_state"
    by (simp add: two_functions_example_def first_open_state_def first_builder_def all_defs)
  have hyp: "state first_open_state = IN_BODY \<and> currentChunk first_open_state = Some first_builder \<and>
      \<not> isBlankOrComment (js ''Second()<t>:int='') \<and>
      getIndent (js ''Second()<t>:int='') \<le> baseIndent first_builder"
    by (simp add: first_open_state_def first_builder_def js_def rx_defs)
  note inst = segmenter_chunks_disjoint[where est = length and content = two_functions_example
      and st = first_open_state and cc = first_builder and line = "js ''Second()<t>:int=''" and n = 3]
  from inst[THEN conjunct2, THEN mp, OF hyp]
  have st: "step length 3 (js ''Second()<t>:int='') first_open_state =
     Inr (idle_step length 3 (js ''Second()<t>:int='')
           ((finalizeChunk length (3 - 1) first_open_state)\<lparr>state := IDLE\<rparr>))" .
  from inst[THEN conjunct1] obtain cs
    where cs: "segmenter length two_functions_example = Inr cs"
      "\<forall>i<length cs. \<forall>j<length cs. i \<noteq> j \<longrightarrow>
         {startLine (cs ! i)..endLine (cs ! i)} \<inter> {startLine (cs ! j)..endLine (cs ! j)} = {}"
    by blast
  from ev cs(1) have len: "length cs = 2" by auto
  have "(0::nat) < length cs" "(1::nat) < length cs" "(0::nat) \<noteq> 1" using len by simp_all
  with cs(2) have "{startLine (cs ! 0)..endLine (cs ! 0)} \<inter> {startLine (cs ! 1)..endLine (cs ! 1)} = {}"
    by blast
  with cs(1) len ev reach st show ?thesis by blast
qed

section \<open>The size floor\<close>

lemma finalize_floor:
  assumes "currentChunk st = Some cc"
  shows "chunks (finalizeChunk est e st) =
     (if 20 < length (trim (fullContent (with_attributes (attributeLines st) cc)))
      then chunks st @ [chunk_of est e (with_attributes (attributeLines st) cc)]
      else chunks st)"
  using assms by (simp add: finalizeChunk_def Let_def)

lemma push_member_floor:
  assumes "methodLines xs = l0 # ls"
  shows "push_member est c cn xs res =
     Inr (if 20 < length (trim (join_nl (methodLines xs)))
          then res @ [member_chunk est c cn xs l0] else res)"
  using assms by (simp add: push_member_def)

text \<open>
  C9. Neither the segmenter nor the extractor throws, and every chunk that the segmenter
  emits and every chunk of the output of the extractor, members included, has a text
  whose trimmed length is over 20. The floor is exactly 20: a builder that is finalized
  and a member that is finalized are emitted if and only if the trimmed length of their
  text is over 20, so that a one-line enum of 21 characters and a member of trimmed
  length 21 are kept, and those of length 20 are discarded. The splitter does not apply
  the floor to the segments it emits before the last one of a chunk: with a target of 30
  the class of \<open>class_method_example\<close> leaves two segments of trimmed length 15 and 13.
\<close>

theorem emitted_chunks_above_floor:
  "(\<exists>cs cs'. segmenter est content = Inr cs \<and> extractNestedMethods est cs = Inr cs' \<and>
      (\<forall>c\<in>set cs. 20 < length (trim (ctext c))) \<and>
      (\<forall>c\<in>set cs'. 20 < length (trim (ctext c)))) \<and>
   (currentChunk st = Some cc \<longrightarrow>
      chunks (finalizeChunk est e st) =
        (if 20 < length (trim (fullContent (with_attributes (attributeLines st) cc)))
         then chunks st @ [chunk_of est e (with_attributes (attributeLines st) cc)]
         else chunks st)) \<and>
   (methodLines xs = l0 # ls \<longrightarrow>
      push_member est c cn xs res =
        Inr (if 20 < length (trim (join_nl (methodLines xs)))
             then res @ [member_chunk est c cn xs l0] else res)) \<and>
   map_chunks (\<lambda>c. (startLine c, endLine c, length (trim (ctext c))))
      (chunkVerseFile length 1000 100 enum21_example) = Inr [(1, 1, 21)] \<and>
   chunkVerseFile length 1000 100 enum20_example = Inr [] \<and>
   map_chunks (\<lambda>c. (startLine c, endLine c, length (trim (ctext c))))
      (chunkVerseFile length 1000 100 member21_example) = Inr [(1, 3, 41), (2, 3, 21)] \<and>
   map_chunks (\<lambda>c. (startLine c, endLine c, length (trim (ctext c))))
      (chunkVerseFile length 1000 100 member20_example) = Inr [(1, 3, 40)] \<and>
   map_chunks (\<lambda>c. (startLine c, endLine c, length (trim (ctext c))))
      (chunkVerseFile length 30 10 class_method_example) =
     Inr [(1, 1, 15), (2, 2, 13), (2, 3, 35)]"
proof (intro conjI impI)
  let ?N = "int (length (split_lines content))"
  from seg_lines_props[OF split_lines_all_no_nl, of est content] obtain cs
    where cs: "segmenter est content = Inr cs" "\<forall>c\<in>set cs. placed ?N c"
    by (auto simp add: segmenter_def placed_def)
  from extractNestedMethods_props[OF cs(2), of est] obtain cs'
    where cs': "extractNestedMethods est cs = Inr cs'" "\<forall>c\<in>set cs'. placed ?N c"
    by blast
  from cs cs' show "\<exists>cs cs'. segmenter est content = Inr cs \<and> extractNestedMethods est cs = Inr cs' \<and>
      (\<forall>c\<in>set cs. 20 < length (trim (ctext c))) \<and>
      (\<forall>c\<in>set cs'. 20 < length (trim (ctext c)))"
    by (auto simp add: placed_def)
next
  assume "currentChunk st = Some cc"
  then show "chunks (finalizeChunk est e st) =
        (if 20 < length (trim (fullContent (with_attributes (attributeLines st) cc)))
         then chunks st @ [chunk_of est e (with_attributes (attributeLines st) cc)]
         else chunks st)"
    by (rule finalize_floor)
next
  assume "methodLines xs = l0 # ls"
  then show "push_member est c cn xs res =
        Inr (if 20 < length (trim (join_nl (methodLines xs)))
             then res @ [member_chunk est c cn xs l0] else res)"
    by (rule push_member_floor)
next
  show "map_chunks (\<lambda>c. (startLine c, endLine c, length (trim (ctext c))))
      (chunkVerseFile length 1000 100 enum21_example) = Inr [(1, 1, 21)]"
    by (simp add: enum21_example_def all_defs)
  show "chunkVerseFile length 1000 100 enum20_example = Inr []"
    by (simp add: enum20_example_def all_defs)
  show "map_chunks (\<lambda>c. (startLine c, endLine c, length (trim (ctext c))))
      (chunkVerseFile length 1000 100 member21_example) = Inr [(1, 3, 41), (2, 3, 21)]"
    by (simp add: member21_example_def all_defs)
  show "map_chunks (\<lambda>c. (startLine c, endLine c, length (trim (ctext c))))
      (chunkVerseFile length 1000 100 member20_example) = Inr [(1, 3, 40)]"
    by (simp add: member20_example_def all_defs)
  show "map_chunks (\<lambda>c. (startLine c, endLine c, length (trim (ctext c))))
      (chunkVerseFile length 30 10 class_method_example) =
     Inr [(1, 1, 15), (2, 2, 13), (2, 3, 35)]"
    by (simp add: class_method_example_def all_defs)
qed

theorem emitted_chunks_above_floor_witness:
  "segmenter length class_method_example = Inr [class_method_chunk] \<and>
   (\<exists>m. extractNestedMethods length [class_method_chunk] = Inr [class_method_chunk, m] \<and>
        20 < length (trim (ctext class_method_chunk)) \<and> 20 < length (trim (ctext m))) \<and>
   length (trim (fullContent (with_attributes (attributeLines attr_short_state)
      \<lparr>b_startLine = 2, signatureLines = [js ''F():int=''], bodyLines = [],
        baseIndent = 0, b_type = js ''function'', hasBody = True\<rparr>))) = 11 \<and>
   chunks (finalizeChunk length 2 attr_short_state) = [] \<and>
   length (trim (join_nl (methodLines member21_state))) = 21 \<and>
   (\<exists>m. push_member length member21_chunk (js ''timer'') member21_state [] = Inr [m] \<and>
        startLine m = 2 \<and> endLine m = 3)"
proof -
  have seg: "segmenter length class_method_example = Inr [class_method_chunk]"
    by (simp add: class_method_example_def class_method_chunk_def all_defs)
  have "\<exists>m. extractNestedMethods length [class_method_chunk] = Inr [class_method_chunk, m]"
    by (simp add: class_method_example_def class_method_chunk_def all_defs)
  then obtain m where m: "extractNestedMethods length [class_method_chunk] = Inr [class_method_chunk, m]"
    by blast
  from emitted_chunks_above_floor[of length class_method_example, THEN conjunct1] obtain cs cs'
    where a: "segmenter length class_method_example = Inr cs" "extractNestedMethods length cs = Inr cs'"
      "\<forall>c\<in>set cs'. 20 < length (trim (ctext c))"
    by blast
  from a(1) seg have "cs = [class_method_chunk]" by simp
  with a(2) m have "cs' = [class_method_chunk, m]" by simp
  with a(3) have one: "20 < length (trim (ctext class_method_chunk)) \<and> 20 < length (trim (ctext m))"
    by simp
  let ?b = "\<lparr>b_startLine = 2, signatureLines = [js ''F():int=''], bodyLines = [],
        baseIndent = 0, b_type = js ''function'', hasBody = True\<rparr>"
  have cur: "currentChunk attr_short_state = Some ?b" by (simp add: attr_short_state_def)
  have len: "length (trim (fullContent (with_attributes (attributeLines attr_short_state) ?b))) = 11"
    by (simp add: attr_short_state_def all_defs)
  from emitted_chunks_above_floor[where st = attr_short_state and cc = ?b and est = length and e = 2,
      THEN conjunct2, THEN conjunct1, THEN mp, OF cur] len
  have two: "chunks (finalizeChunk length 2 attr_short_state) = []"
    by (simp add: attr_short_state_def)
  have ml: "methodLines member21_state = js ''    G()<t>:int='' # [js ''     abcd'']"
    by (simp add: member21_state_def)
  have len21: "length (trim (join_nl (methodLines member21_state))) = 21"
    by (simp add: member21_state_def trim_def is_space_def js_def)
  from emitted_chunks_above_floor[where xs = member21_state and ?l0.0 = "js ''    G()<t>:int=''"
      and ls = "[js ''     abcd'']" and est = length and c = member21_chunk and cn = "js ''timer''"
      and res = "[]", THEN conjunct2, THEN conjunct2, THEN conjunct1, THEN mp, OF ml] len21
  have "push_member length member21_chunk (js ''timer'') member21_state [] =
      Inr [member_chunk length member21_chunk (js ''timer'') member21_state (js ''    G()<t>:int='')]"
    by simp
  then have three: "\<exists>m. push_member length member21_chunk (js ''timer'') member21_state [] = Inr [m] \<and>
        startLine m = 2 \<and> endLine m = 3"
    by (simp add: member_chunk_def member21_chunk_def member21_state_def)
  from seg m one len two len21 three show ?thesis by blast
qed

end
